(* ===== verification/BBV_Prelude.thy ===== *)
theory BBV_Prelude
  imports Main "HOL-Library.Word" "HOL-Library.Monad_Syntax" "HOL-Library.Multiset"
    "HOL-Library.Signed_Division"
begin

text \<open>
  Shared vocabulary of the development: the return codes of the program, the C-level
  operations whose behaviour is not always defined (array reads and writes, signed
  arithmetic, division), and the generic lemmas about lists and words the components use.

  Every model of a C function is a value of an option type: \<open>None\<close> is undefined
  behaviour, a crash, a self-deadlock or a loop that never returns; a return code is an
  ordinary value. A theorem of the form \<open>\<exists>r. f x = Some r\<close> therefore says that the
  call is memory safe, free of overflow, and returns.
\<close>

named_theorems ub_simps "facts that discharge the definedness checks of the C operations"

section \<open>Return codes\<close>

text \<open>
  The codes named in the sources. \<open>MPI_SUCCESS\<close> and \<open>OMPI_SUCCESS\<close> are the same value (zero)
  and the other codes are distinct from it; \<open>Rc_other\<close> stands for any further
  code that a called library function may return.
\<close>

datatype rc =
    OMPI_SUCCESS | OMPI_ERROR | OMPI_ERR_OUT_OF_RESOURCE | OMPI_ERR_NOT_SUPPORTED
  | OMPI_ERR_MAX | MPI_ERR_UNSUPPORTED_DATAREP | MPI_ERR_DISP | MPI_ERR_OTHER
  | MPI_ERR_ACCESS | MPI_ERR_IO | MPI_ERR_ARG | MPI_ERR_REQUEST | MPI_ERR_INTERN
  | Rc_other int

section \<open>C operations that may be undefined\<close>

definition rd :: "'a list \<Rightarrow> nat \<Rightarrow> 'a option" where
  "rd xs i = (if i < length xs then Some (xs ! i) else None)"

definition rdi :: "'a list \<Rightarrow> int \<Rightarrow> 'a option" where
  "rdi xs i = (if i < 0 then None else rd xs (nat i))"

definition wr :: "'a list \<Rightarrow> nat \<Rightarrow> 'a \<Rightarrow> 'a list option" where
  "wr xs i x = (if i < length xs then Some (xs[i := x]) else None)"

text \<open>The value of a C \<open>int\<close> expression: undefined when it does not fit 32 bits.\<close>

definition i32 :: "int \<Rightarrow> int option" where
  "i32 x = (if - (2 ^ 31) \<le> x \<and> x < 2 ^ 31 then Some x else None)"

definition i64 :: "int \<Rightarrow> int option" where
  "i64 x = (if - (2 ^ 63) \<le> x \<and> x < 2 ^ 63 then Some x else None)"

text \<open>Integer division and remainder truncate towards zero; a zero divisor traps.\<close>

definition c_div :: "int \<Rightarrow> int \<Rightarrow> int option" where
  "c_div a b = (if b = 0 then None else Some (a sdiv b))"

definition c_mod :: "int \<Rightarrow> int \<Rightarrow> int option" where
  "c_mod a b = (if b = 0 then None else Some (a smod b))"

text \<open>\<open>(int) x\<close> for a 64-bit unsigned \<open>x\<close>: the low 32 bits read as two's complement.\<close>

definition to_int32 :: "64 word \<Rightarrow> int" where
  "to_int32 x = sint (ucast x :: 32 word)"

lemma rd_Some [ub_simps]: "i < length xs \<Longrightarrow> rd xs i = Some (xs ! i)"
  by (simp add: rd_def)

lemma rd_eq_Some_iff: "rd xs i = Some y \<longleftrightarrow> i < length xs \<and> y = xs ! i"
  by (auto simp: rd_def)

lemma rdi_Some [ub_simps]: "0 \<le> i \<Longrightarrow> nat i < length xs \<Longrightarrow> rdi xs i = Some (xs ! nat i)"
  by (simp add: rdi_def rd_def)

lemma wr_Some [ub_simps]: "i < length xs \<Longrightarrow> wr xs i x = Some (xs[i := x])"
  by (simp add: wr_def)

lemma wr_eq_Some_iff: "wr xs i x = Some ys \<longleftrightarrow> i < length xs \<and> ys = xs[i := x]"
  by (auto simp: wr_def)

lemma i32_Some [ub_simps]: "- (2 ^ 31) \<le> x \<Longrightarrow> x < 2 ^ 31 \<Longrightarrow> i32 x = Some x"
  by (simp add: i32_def)

lemma i32_eq_Some_iff: "i32 x = Some y \<longleftrightarrow> y = x \<and> - (2 ^ 31) \<le> x \<and> x < 2 ^ 31"
  by (auto simp: i32_def)

lemma i64_Some [ub_simps]: "- (2 ^ 63) \<le> x \<Longrightarrow> x < 2 ^ 63 \<Longrightarrow> i64 x = Some x"
  by (simp add: i64_def)

lemma i64_eq_Some_iff: "i64 x = Some y \<longleftrightarrow> y = x \<and> - (2 ^ 63) \<le> x \<and> x < 2 ^ 63"
  by (auto simp: i64_def)

lemma sdiv_nonneg: "0 \<le> a \<Longrightarrow> 0 < b \<Longrightarrow> a sdiv b = a div (b::int)"
  by (simp add: signed_divide_int_def sgn_if zero_less_mult_iff)

lemma smod_nonneg: "0 \<le> a \<Longrightarrow> 0 < b \<Longrightarrow> a smod b = a mod (b::int)"
  by (cases "a = 0") (simp_all add: signed_modulo_int_def sgn_if)

lemma smod_eq_0_iff: "a smod b = 0 \<longleftrightarrow> b dvd (a::int)"
proof -
  have abs_dvd: "\<bar>b\<bar> dvd \<bar>a\<bar> \<longleftrightarrow> b dvd a" by simp
  have "a smod b = sgn a * (\<bar>a\<bar> mod \<bar>b\<bar>)"
    by (simp add: signed_modulo_int_def signed_divide_int_def sgn_mult algebra_simps
        minus_mult_div_eq_mod [symmetric] abs_sgn [symmetric])
  then show ?thesis
    using abs_dvd by (auto simp: sgn_if dvd_eq_mod_eq_0 split: if_splits)
qed

lemma sint_small32:
  assumes lt: "unat (x :: 32 word) < 2 ^ 31"
  shows "sint x = int (unat x)"
proof -
  have i: "uint x < 2 ^ 31"
    using lt by (simp only: uint_nat of_nat_less_numeral_power_cancel_iff)
  have "signed_take_bit 31 (uint x) = uint x"
  proof (rule signed_take_bit_int_eq_self)
    have "- (2 ^ 31) \<le> (0::int)" by simp
    also have "0 \<le> uint x" by (rule unsigned_greater_eq)
    finally show "- (2 ^ 31) \<le> uint x" .
  qed (rule i)
  then show ?thesis by (simp add: sint_uint)
qed

lemma unat_ucast_small32:
  assumes "unat (x :: 64 word) < 2 ^ 32"
  shows "unat (ucast x :: 32 word) = unat x"
  using assms by (simp add: unsigned_ucast_eq take_bit_nat_eq_self_iff)

lemma to_int32_small: "unat x < 2 ^ 31 \<Longrightarrow> to_int32 x = int (unat x)"
  unfolding to_int32_def
  by (subst sint_small32) (simp_all add: unat_ucast_small32 del: of_nat_unat)

end
