(* ===== verification/BBV_Sort.thy ===== *)
theory BBV_Sort
  imports BBV_Prelude
begin

text \<open>
  \<open>ompi_io_bbview_sort_offlen\<close> (\<open>io_bbview.c\<close>): a heap sort that leaves the array
  of offset/length records alone and fills \<open>sorted\<close> with the permutation of
  indices that lists the records by ascending offset. The sift loop is written twice in the
  source (building the heap and extracting its maximum), with the same body: \<open>sift\<close>.
  Array accesses, the children's index arithmetic and the swaps are checked.
\<close>

record offlen =
  offset :: int      \<comment> \<open>\<open>OMPI_MPI_OFFSET_TYPE\<close>, only compared here\<close>
  length_of :: int   \<comment> \<open>\<open>MPI_Aint\<close>\<close>
  process_id :: nat

section \<open>The program\<close>

definition off_at :: "offlen list \<Rightarrow> nat list \<Rightarrow> nat \<Rightarrow> int option" where
  "off_at io_array temp_arr x = do {
     t \<leftarrow> rd temp_arr x;
     e \<leftarrow> rd io_array t;
     Some (offset e) }"

text \<open>One round of the inner loop: the index of the largest of \<open>j\<close> and its children.\<close>

definition pick_largest :: "offlen list \<Rightarrow> int \<Rightarrow> nat list \<Rightarrow> nat \<Rightarrow> nat option" where
  "pick_largest io_array heap_size temp_arr j = do {
     left \<leftarrow> i32 (int j * 2 + 1);
     right \<leftarrow> i32 (int j * 2 + 2);
     largest \<leftarrow>
       (if left \<le> heap_size then do {
          a \<leftarrow> off_at io_array temp_arr (nat left);
          b \<leftarrow> off_at io_array temp_arr j;
          Some (if a > b then nat left else j) }
        else Some j);
     (if right \<le> heap_size then do {
        a \<leftarrow> off_at io_array temp_arr (nat right);
        b \<leftarrow> off_at io_array temp_arr largest;
        Some (if a > b then nat right else largest) }
      else Some largest) }"

definition swap_at :: "nat list \<Rightarrow> nat \<Rightarrow> nat \<Rightarrow> nat list option" where
  "swap_at temp_arr a b = do {
     temp \<leftarrow> rd temp_arr a;
     y \<leftarrow> rd temp_arr b;
     t1 \<leftarrow> wr temp_arr a y;
     wr t1 b temp }"

lemma pick_largest_range:
  assumes "pick_largest io hs ta j = Some l" and "l \<noteq> j"
  shows "j < l \<and> int l \<le> hs"
  using assms by (auto simp: pick_largest_def i32_eq_Some_iff split: if_splits bind_splits)

function sift :: "offlen list \<Rightarrow> int \<Rightarrow> nat list \<Rightarrow> nat \<Rightarrow> nat list option" where
  "sift io_array heap_size temp_arr j = do {
     largest \<leftarrow> pick_largest io_array heap_size temp_arr j;
     (if largest \<noteq> j then do {
        temp_arr' \<leftarrow> swap_at temp_arr largest j;
        sift io_array heap_size temp_arr' largest }
      else Some temp_arr) }"
  by pat_completeness auto
termination
  by (relation "measure (\<lambda>(io, hs, ta, j). nat (hs + 1) - j)")
     (auto dest: pick_largest_range)

declare sift.simps [simp del]

text \<open>\<open>for (i = num_entries/2-1; i>=0; i--)\<close>, counted by \<open>i + 1\<close>.\<close>

fun build_heap :: "offlen list \<Rightarrow> int \<Rightarrow> nat list \<Rightarrow> nat \<Rightarrow> nat list option" where
  "build_heap io_array heap_size temp_arr 0 = Some temp_arr"
| "build_heap io_array heap_size temp_arr (Suc i) = do {
     temp_arr' \<leftarrow> sift io_array heap_size temp_arr i;
     build_heap io_array heap_size temp_arr' i }"

text \<open>\<open>for (i = num_entries-1; i >=1; --i)\<close>: the argument is \<open>i\<close>.\<close>

fun extract_max :: "offlen list \<Rightarrow> int \<Rightarrow> nat list \<Rightarrow> nat list \<Rightarrow> nat
    \<Rightarrow> (nat list \<times> nat list) option" where
  "extract_max io_array heap_size temp_arr sorted_arr 0 = Some (temp_arr, sorted_arr)"
| "extract_max io_array heap_size temp_arr sorted_arr (Suc i') = do {
     temp_arr1 \<leftarrow> swap_at temp_arr 0 (Suc i');
     heap_size' \<leftarrow> i32 (heap_size - 1);
     temp_arr2 \<leftarrow> sift io_array heap_size' temp_arr1 0;
     x \<leftarrow> rd temp_arr2 (Suc i');
     sorted_arr' \<leftarrow> wr sorted_arr (Suc i') x;
     extract_max io_array heap_size' temp_arr2 sorted_arr' i' }"

text \<open>
  \<open>temp_arr\<close> comes from \<open>malloc (num_entries * sizeof(int))\<close>: \<open>block\<close> is the fresh block
  with its indeterminate contents, or \<open>None\<close> when the allocation fails. The stores
  \<open>temp_arr[0] = 0\<close> and \<open>temp_arr[i] = i\<close> fill it; with \<open>num_entries = 0\<close> the first of
  them already lies outside the block.
\<close>

fun fill_from :: "nat list \<Rightarrow> nat \<Rightarrow> nat \<Rightarrow> nat list option" where
  "fill_from temp_arr i 0 = Some temp_arr"
| "fill_from temp_arr i (Suc k) = do {
     temp_arr' \<leftarrow> wr temp_arr i i;
     fill_from temp_arr' (Suc i) k }"

definition ompi_io_bbview_sort_offlen ::
  "nat list option \<Rightarrow> offlen list \<Rightarrow> int \<Rightarrow> nat list \<Rightarrow> (rc \<times> nat list) option" where
  "ompi_io_bbview_sort_offlen block io_array num_entries sorted_arr =
     (case block of
        None \<Rightarrow> Some (OMPI_ERR_OUT_OF_RESOURCE, sorted_arr)
      | Some blk \<Rightarrow> do {
          heap_size \<leftarrow> i32 (num_entries - 1);
          temp0 \<leftarrow> wr blk 0 0;
          temp1 \<leftarrow> fill_from temp0 1 (nat num_entries - 1);
          temp2 \<leftarrow> build_heap io_array heap_size temp1 (nat num_entries div 2);
          (temp3, sorted1) \<leftarrow> extract_max io_array heap_size temp2 sorted_arr (nat num_entries - 1);
          x \<leftarrow> rd temp3 0;
          sorted2 \<leftarrow> wr sorted1 0 x;
          Some (OMPI_SUCCESS, sorted2) })"

section \<open>Definedness and the heap invariant\<close>

definition key :: "offlen list \<Rightarrow> nat list \<Rightarrow> nat \<Rightarrow> int" where
  "key io ta x = offset (io ! (ta ! x))"

definition is_perm :: "offlen list \<Rightarrow> nat list \<Rightarrow> bool" where
  "is_perm io ta \<longleftrightarrow> mset ta = mset [0..<length io]"

definition heap_on :: "(nat \<Rightarrow> int) \<Rightarrow> nat \<Rightarrow> nat \<Rightarrow> bool" where
  "heap_on f N m \<longleftrightarrow> (\<forall>c. 0 < c \<longrightarrow> c < N \<longrightarrow> m \<le> (c - 1) div 2 \<longrightarrow> f c \<le> f ((c - 1) div 2))"

text \<open>The heap order everywhere but below \<open>j\<close>, whose children still respect \<open>j\<close>'s parent.\<close>

definition heap_hole :: "(nat \<Rightarrow> int) \<Rightarrow> nat \<Rightarrow> nat \<Rightarrow> nat \<Rightarrow> bool" where
  "heap_hole f N m j \<longleftrightarrow>
     (\<forall>c. 0 < c \<longrightarrow> c < N \<longrightarrow> m \<le> (c - 1) div 2 \<longrightarrow> (c - 1) div 2 \<noteq> j \<longrightarrow> f c \<le> f ((c - 1) div 2)) \<and>
     (\<forall>c. 0 < c \<longrightarrow> c < N \<longrightarrow> (c - 1) div 2 = j \<longrightarrow> 0 < j \<longrightarrow> m \<le> (j - 1) div 2 \<longrightarrow>
        f c \<le> f ((j - 1) div 2))"

lemma is_perm_length: "is_perm io ta \<Longrightarrow> length ta = length io"
  by (metis is_perm_def mset_eq_length length_upt diff_zero)

lemma is_perm_set: "is_perm io ta \<Longrightarrow> set ta = {0..<length io}"
  by (metis is_perm_def mset_eq_setD set_upt)

lemma is_perm_nth: "is_perm io ta \<Longrightarrow> x < length io \<Longrightarrow> ta ! x < length io"
  using is_perm_set is_perm_length by (metis atLeastLessThan_iff nth_mem)

lemma off_at_Some: "is_perm io ta \<Longrightarrow> x < length io \<Longrightarrow> off_at io ta x = Some (key io ta x)"
  by (simp add: off_at_def key_def rd_def is_perm_length is_perm_nth)

lemma swap_at_Some:
  assumes "a < length ta" and "b < length ta"
  shows "swap_at ta a b = Some (ta[a := ta ! b, b := ta ! a])"
  using assms by (simp add: swap_at_def ub_simps)

lemma is_perm_swap:
  assumes "is_perm io ta" "a < length ta" "b < length ta"
  shows "is_perm io (ta[a := ta ! b, b := ta ! a])"
  using assms by (simp add: is_perm_def mset_swap)

lemma key_swap:
  assumes "a < length ta" "b < length ta"
  shows "key io (ta[a := ta ! b, b := ta ! a]) =
    (\<lambda>x. if x = b then key io ta a else if x = a then key io ta b else key io ta x)"
  using assms by (auto simp: key_def nth_list_update fun_eq_iff)

lemma pick_largest_spec:
  assumes perm: "is_perm io ta" and small: "length io < 2 ^ 30"
    and N: "N \<le> length io" and j: "j < length io"
  obtains l where "pick_largest io (int N - 1) ta j = Some l" "l < length io"
    "key io ta j \<le> key io ta l"
    "l = j \<or> (l < N \<and> 0 < l \<and> (l - 1) div 2 = j)"
    "\<And>c. 0 < c \<Longrightarrow> c < N \<Longrightarrow> (c - 1) div 2 = j \<Longrightarrow> key io ta c \<le> key io ta l"
proof -
  have child: "c = 2 * j + 1 \<or> c = 2 * j + 2" if "0 < c" "(c - 1) div 2 = j" for c
    using that by linarith
  have L: "i32 (int j * 2 + 1) = Some (int (2 * j + 1))"
    "i32 (int j * 2 + 2) = Some (int (2 * j + 2))"
    using small j by (simp_all add: i32_def)
  note offs = off_at_Some [OF perm]
  show ?thesis
  proof (cases "2 * j + 2 < N")
    case True
    then have "2 * j + 1 < length io" "2 * j + 2 < length io" using N by auto
    with True show ?thesis
      by (intro that [of "let a = (if key io ta (2 * j + 1) > key io ta j then 2 * j + 1 else j)
              in if key io ta (2 * j + 2) > key io ta a then 2 * j + 2 else a"])
        (auto simp: pick_largest_def L offs j Let_def nat_add_distrib nat_mult_distrib dest!: child)
  next
    case F: False
    show ?thesis
    proof (cases "2 * j + 1 < N")
      case True
      then have "2 * j + 1 < length io" using N by auto
      with True F show ?thesis
        by (intro that [of "if key io ta (2 * j + 1) > key io ta j then 2 * j + 1 else j"])
          (auto simp: pick_largest_def L offs j nat_add_distrib nat_mult_distrib dest!: child)
    next
      case False
      with F show ?thesis
        by (intro that [of j]) (auto simp: pick_largest_def L offs j dest!: child)
    qed
  qed
qed

section \<open>Sifting down\<close>

lemma heap_hole_closed:
  assumes "heap_hole f N m j"
    and "\<And>c. 0 < c \<Longrightarrow> c < N \<Longrightarrow> (c - 1) div 2 = j \<Longrightarrow> f c \<le> f j"
  shows "heap_on f N m"
  using assms unfolding heap_on_def heap_hole_def by metis

text \<open>Swapping the hole with its largest child moves the hole to that child.\<close>

lemma heap_hole_step:
  assumes hole: "heap_hole f N m j" and m: "m \<le> j"
    and l: "l < N" "0 < l" "(l - 1) div 2 = j" and ge: "f j \<le> f l"
    and max: "\<And>c. 0 < c \<Longrightarrow> c < N \<Longrightarrow> (c - 1) div 2 = j \<Longrightarrow> f c \<le> f l"
  defines "g \<equiv> (\<lambda>x. if x = j then f l else if x = l then f j else f x)"
  shows "heap_hole g N m l"
proof -
  have jl: "j < l" using l by linarith
  have par_lt: "(c - 1) div 2 < c" if "0 < c" for c :: nat using that by linarith
  have "g c \<le> g ((c - 1) div 2)"
    if c: "0 < c" "c < N" "m \<le> (c - 1) div 2" "(c - 1) div 2 \<noteq> l" for c
  proof (cases "(c - 1) div 2 = j")
    case True
    then have "c \<noteq> j" using par_lt [OF c(1)] by auto
    with True max [OF c(1,2)] ge show ?thesis by (simp add: g_def)
  next
    case False
    then have "c \<noteq> l" using l by auto
    have "f c \<le> f ((c - 1) div 2)"
      using hole c False unfolding heap_hole_def by blast
    moreover have "f l \<le> f ((j - 1) div 2)" if "c = j"
      using hole c l that unfolding heap_hole_def by blast
    ultimately show ?thesis using False c(4) \<open>c \<noteq> l\<close> by (simp add: g_def)
  qed
  moreover have "g c \<le> g ((l - 1) div 2)"
    if c: "0 < c" "c < N" "(c - 1) div 2 = l" for c
  proof -
    have "c \<noteq> j" "c \<noteq> l" using par_lt [OF c(1)] c(3) jl by auto
    moreover have "f c \<le> f l"
      using hole c jl m unfolding heap_hole_def by (metis less_imp_le_nat nat_neq_iff order.trans)
    ultimately show ?thesis using l by (simp add: g_def)
  qed
  ultimately show ?thesis unfolding heap_hole_def by blast
qed

lemma sift_correct:
  assumes "is_perm io ta" and "length io < 2 ^ 30" and "N \<le> length io" and "j < length io"
    and "m \<le> j" and "heap_hole (key io ta) N m j" and "j < N"
  shows "\<exists>ta'. sift io (int N - 1) ta j = Some ta' \<and> is_perm io ta' \<and>
    heap_on (key io ta') N m \<and> (\<forall>x \<ge> N. ta' ! x = ta ! x)"
  using assms
proof (induction io "int N - 1" ta j rule: sift.induct)
  case (1 io ta j)
  note prems = "1.prems"
  obtain l where pick: "pick_largest io (int N - 1) ta j = Some l" and len: "l < length io"
    and ge: "key io ta j \<le> key io ta l"
    and child: "l = j \<or> (l < N \<and> 0 < l \<and> (l - 1) div 2 = j)"
    and max: "\<And>c. 0 < c \<Longrightarrow> c < N \<Longrightarrow> (c - 1) div 2 = j \<Longrightarrow> key io ta c \<le> key io ta l"
    using pick_largest_spec [OF prems(1-4)] by metis
  show ?case
  proof (cases "l = j")
    case True
    then show ?thesis
      using pick prems(1) heap_hole_closed [OF prems(6)] max by (simp add: sift.simps)
  next
    case False
    define ta1 where "ta1 = ta[l := ta ! j, j := ta ! l]"
    have lens: "l < length ta" "j < length ta"
      using is_perm_length [OF prems(1)] len prems(4) by auto
    have sw: "swap_at ta l j = Some ta1"
      unfolding ta1_def by (rule swap_at_Some [OF lens])
    have perm1: "is_perm io ta1"
      unfolding ta1_def by (rule is_perm_swap [OF prems(1) lens])
    have lN: "l < N" "0 < l" "(l - 1) div 2 = j" using child False by auto
    have hole1: "heap_hole (key io ta1) N m l"
      unfolding ta1_def key_swap [OF lens]
      by (rule heap_hole_step [OF prems(6,5) lN ge max])
    have "m \<le> l" using prems(5) lN by linarith
    from "1.hyps" [OF pick False sw perm1 prems(2,3) len this hole1 lN(1)]
    obtain ta' where "sift io (int N - 1) ta1 l = Some ta'" "is_perm io ta'"
      "heap_on (key io ta') N m" "\<forall>x \<ge> N. ta' ! x = ta1 ! x" by blast
    moreover have "\<forall>x \<ge> N. ta1 ! x = ta ! x"
      using lN(1) prems(7) by (auto simp: ta1_def)
    ultimately show ?thesis using pick False sw by (simp add: sift.simps [of io _ ta])
  qed
qed

lemma heap_hole_of_heap:
  "heap_on f N (Suc m) \<Longrightarrow> heap_hole f N m m"
proof -
  assume h: "heap_on f N (Suc m)"
  have "\<not> m \<le> (m - 1) div 2" if "0 < m" using that by linarith
  then show ?thesis using h unfolding heap_on_def heap_hole_def
    by (metis Suc_leI le_neq_implies_less)
qed

lemma build_heap_correct:
  assumes "is_perm io ta" and "length io < 2 ^ 30" and "i \<le> length io"
    and "heap_on (key io ta) (length io) i"
  shows "\<exists>ta'. build_heap io (int (length io) - 1) ta i = Some ta' \<and> is_perm io ta' \<and>
    heap_on (key io ta') (length io) 0"
  using assms
proof (induction i arbitrary: ta)
  case 0
  then show ?case by simp
next
  case (Suc i)
  then obtain ta1 where "sift io (int (length io) - 1) ta i = Some ta1" "is_perm io ta1"
    "heap_on (key io ta1) (length io) i"
    using sift_correct [OF Suc.prems(1,2) order_refl, of i i] heap_hole_of_heap by force
  then show ?case using Suc.IH [of ta1] Suc.prems by auto
qed

lemma heap_root_max: "heap_on f N 0 \<Longrightarrow> x < N \<Longrightarrow> f x \<le> f 0"
proof (induction x rule: less_induct)
  case (less x)
  show ?case
  proof (cases "x = 0")
    case False
    then have "(x - 1) div 2 < x" by linarith
    moreover have "f x \<le> f ((x - 1) div 2)"
      using less.prems False unfolding heap_on_def by blast
    ultimately show ?thesis using less.IH [of "(x - 1) div 2"] less.prems by linarith
  qed simp
qed

section \<open>Extracting the maxima\<close>

text \<open>
  Before the round with index \<open>i\<close> the first \<open>i + 1\<close> entries are a heap, the entries after
  them are in order and not below any heap entry, and they are already in \<open>sorted\<close>.
\<close>

definition extract_inv :: "offlen list \<Rightarrow> nat list \<Rightarrow> nat list \<Rightarrow> nat \<Rightarrow> bool" where
  "extract_inv io ta srt i \<longleftrightarrow>
     is_perm io ta \<and> length srt = length io \<and> heap_on (key io ta) (Suc i) 0 \<and>
     (\<forall>x y. i < y \<longrightarrow> x < y \<longrightarrow> y < length io \<longrightarrow> key io ta x \<le> key io ta y) \<and>
     (\<forall>x. i < x \<longrightarrow> x < length io \<longrightarrow> srt ! x = ta ! x)"

lemma set_take_perm:
  assumes "mset xs = mset ys" and "drop i xs = drop i ys"
  shows "set (take i xs) = set (take i ys)"
proof -
  have "mset (take i xs) + mset (drop i xs) = mset (take i ys) + mset (drop i ys)"
    using assms(1) by (metis append_take_drop_id mset_append)
  then show ?thesis using assms(2) by (metis add_right_cancel mset_eq_setD)
qed

text \<open>The entries below \<open>i\<close> are permuted among themselves, so any bound on their keys is kept.\<close>

lemma key_bound_perm:
  assumes "is_perm io xs" "is_perm io ys" "\<forall>z \<ge> i. xs ! z = ys ! z"
    and "\<And>z. z < i \<Longrightarrow> z < length io \<Longrightarrow> key io ys z \<le> b" and "x < i" "x < length io"
  shows "key io xs x \<le> b"
proof -
  have lens: "length xs = length io" "length ys = length io"
    using assms(1,2) by (simp_all add: is_perm_length)
  have "drop i xs = drop i ys"
    using assms(3) lens by (intro nth_equalityI) auto
  then have "set (take i xs) = set (take i ys)"
    using assms(1,2) by (intro set_take_perm) (simp_all add: is_perm_def)
  moreover have "xs ! x \<in> set (take i xs)"
    using assms(5,6) lens by (metis in_set_conv_nth length_take min_less_iff_conj nth_take)
  ultimately obtain z where "z < i" "z < length io" "ys ! z = xs ! x"
    using lens by (auto simp: in_set_conv_nth)
  then show ?thesis using assms(4) by (metis key_def)
qed

lemma extract_step:
  assumes inv: "extract_inv io ta srt (Suc i)" and small: "length io < 2 ^ 30"
    and i: "Suc i < length io"
  shows "\<exists>ta1 ta2. swap_at ta 0 (Suc i) = Some ta1 \<and> sift io (int (Suc i) - 1) ta1 0 = Some ta2 \<and>
    Suc i < length ta2 \<and> Suc i < length srt \<and> extract_inv io ta2 (srt[Suc i := ta2 ! Suc i]) i"
proof -
  from inv have perm: "is_perm io ta" and lsrt: "length srt = length io"
    and heap: "heap_on (key io ta) (Suc (Suc i)) 0"
    and tail: "\<And>x y. Suc i < y \<Longrightarrow> x < y \<Longrightarrow> y < length io \<Longrightarrow> key io ta x \<le> key io ta y"
    and filled: "\<And>x. Suc i < x \<Longrightarrow> x < length io \<Longrightarrow> srt ! x = ta ! x"
    unfolding extract_inv_def by blast+
  note lta = is_perm_length [OF perm]
  have lens: "0 < length ta" "Suc i < length ta" using i lta by auto
  define ta1 where "ta1 = ta[0 := ta ! Suc i, Suc i := ta ! 0]"
  have sw: "swap_at ta 0 (Suc i) = Some ta1" unfolding ta1_def by (rule swap_at_Some [OF lens])
  have perm1: "is_perm io ta1" unfolding ta1_def by (rule is_perm_swap [OF perm lens])
  have k1: "key io ta1 x = (if x = Suc i then key io ta 0 else if x = 0 then key io ta (Suc i)
      else key io ta x)" for x
    unfolding ta1_def key_swap [OF lens] ..
  have root: "key io ta x \<le> key io ta 0" if "x < Suc (Suc i)" for x
    using heap_root_max [OF heap that] .
  have "heap_hole (key io ta1) (Suc i) 0 0"
    using heap unfolding heap_hole_def heap_on_def k1 by auto
  then obtain ta2 where sf: "sift io (int (Suc i) - 1) ta1 0 = Some ta2" and perm2: "is_perm io ta2"
    and heap2: "heap_on (key io ta2) (Suc i) 0" and same: "\<forall>x \<ge> Suc i. ta2 ! x = ta1 ! x"
    using sift_correct [OF perm1 small, of "Suc i" 0 0] i by (metis le0 less_imp_le_nat
      not_less_zero zero_less_Suc less_nat_zero_code order.strict_trans)
  have k2: "key io ta2 x = key io ta1 x" if "Suc i \<le> x" for x using same that by (simp add: key_def)
  have low: "key io ta2 x \<le> key io ta1 y" if "x < Suc i" "Suc i \<le> y" "y < length io" for x y
  proof (rule key_bound_perm [OF perm2 perm1 same _ that(1)])
    fix z assume z: "z < Suc i" "z < length io"
    show "key io ta1 z \<le> key io ta1 y"
      using root [of z] root [of "Suc i"] tail [of y z] tail [of y "Suc i"] tail [of y 0] z that(2,3)
      by (auto simp: k1)
  qed (use that i in auto)
  have "key io ta2 x \<le> key io ta2 y" if "i < y" "x < y" "y < length io" for x y
    using low [of x y] tail [of y x] tail [of y 0] that by (cases "x < Suc i") (auto simp: k1 k2)
  moreover have "srt[Suc i := ta2 ! Suc i] ! x = ta2 ! x" if "i < x" "x < length io" for x
    using filled [of x] that lsrt lta same by (auto simp: nth_list_update ta1_def)
  ultimately show ?thesis
    using sw sf perm2 heap2 lsrt i is_perm_length [OF perm2] unfolding extract_inv_def by auto
qed

lemma extract_max_correct:
  assumes "extract_inv io ta srt i" and "length io < 2 ^ 30" and "i < length io"
  shows "\<exists>ta' srt'. extract_max io (int i) ta srt i = Some (ta', srt') \<and> extract_inv io ta' srt' 0"
  using assms
proof (induction i arbitrary: ta srt)
  case 0
  then show ?case by simp
next
  case (Suc i)
  from extract_step [OF Suc.prems] obtain ta1 ta2 where s: "swap_at ta 0 (Suc i) = Some ta1"
    "sift io (int (Suc i) - 1) ta1 0 = Some ta2" "Suc i < length ta2" "Suc i < length srt"
    and inv: "extract_inv io ta2 (srt[Suc i := ta2 ! Suc i]) i" by blast
  have "i32 (int (Suc i) - 1) = Some (int i)" using Suc.prems(2,3) by (simp add: i32_def)
  then show ?case using s Suc.IH [OF inv Suc.prems(2)] Suc.prems(3) by (simp add: ub_simps)
qed

lemma fill_from_upt:
  assumes "length ta = i + k"
  shows "fill_from ta i k = Some (take i ta @ [i..<i + k])"
  using assms
proof (induction k arbitrary: ta i)
  case (Suc k)
  have "take (Suc i) (ta[i := i]) = take i ta @ [i]"
    using Suc.prems by (simp add: take_Suc_conv_app_nth)
  moreover have "[i..<i + Suc k] = i # [Suc i..<Suc i + k]" by (simp add: upt_conv_Cons)
  ultimately show ?case
    using Suc.IH [of "ta[i := i]" "Suc i"] Suc.prems by (simp add: ub_simps)
qed simp

section \<open>Correctness of the sort\<close>

lemma sort_offlen_total:
  assumes ne: "io \<noteq> []" and small: "length io < 2 ^ 30"
    and blk: "length blk = length io" and srt: "length srt = length io"
  shows "\<exists>s. ompi_io_bbview_sort_offlen (Some blk) io (int (length io)) srt = Some (OMPI_SUCCESS, s) \<and>
    mset s = mset [0..<length io] \<and> sorted (map (\<lambda>t. offset (io ! t)) s)"
proof -
  let ?n = "length io"
  have n0: "0 < ?n" using ne by simp
  have fill: "fill_from (blk[0 := 0]) 1 (?n - 1) = Some [0..<?n]"
  proof -
    have "take 1 (blk[0 := 0]) = [0]" using n0 blk by (cases blk) auto
    moreover have "0 # [1..<?n] = [0..<?n]" using n0 by (simp add: upt_conv_Cons)
    ultimately show ?thesis using fill_from_upt [of "blk[0 := 0]" 1 "?n - 1"] n0 blk by simp
  qed
  have "heap_on (key io [0..<?n]) ?n (?n div 2)" unfolding heap_on_def by auto
  then obtain t2 where b: "build_heap io (int ?n - 1) [0..<?n] (?n div 2) = Some t2"
    "is_perm io t2" "heap_on (key io t2) ?n 0"
    using build_heap_correct [of io "[0..<?n]" "?n div 2"] small by (auto simp: is_perm_def)
  have "extract_inv io t2 srt (?n - 1)"
    using b srt n0 unfolding extract_inv_def by (simp, linarith)
  then obtain t3 s1 where e: "extract_max io (int (?n - 1)) t2 srt (?n - 1) = Some (t3, s1)"
    and inv: "extract_inv io t3 s1 0"
    using extract_max_correct [of io t2 srt "?n - 1"] small n0 by auto
  have l3: "length t3 = ?n" and ls: "length s1 = ?n"
    using inv is_perm_length unfolding extract_inv_def by blast+
  have "s1[0 := t3 ! 0] = t3"
  proof (rule nth_equalityI)
    fix i assume i: "i < length (s1[0 := t3 ! 0])"
    then have "0 < i \<Longrightarrow> s1 ! i = t3 ! i" using inv ls unfolding extract_inv_def by simp
    then show "s1[0 := t3 ! 0] ! i = t3 ! i" using i by (cases "i = 0") simp_all
  qed (simp add: l3 ls)
  then have out: "s1[0 := t3 ! 0] = t3" .
  have e': "extract_max io (int ?n - 1) t2 srt (?n - 1) = Some (t3, s1)"
    using e n0 by (simp add: of_nat_diff Suc_leI)
  have hs: "i32 (int ?n - 1) = Some (int ?n - 1)" using small by (simp add: i32_def)
  have "wr blk 0 0 = Some (blk[0 := 0])" "rd t3 0 = Some (t3 ! 0)" "wr s1 0 (t3 ! 0) = Some t3"
    using n0 blk l3 ls out by (simp_all add: rd_def wr_def)
  then have "ompi_io_bbview_sort_offlen (Some blk) io (int ?n) srt = Some (OMPI_SUCCESS, t3)"
    using hs fill b(1) e' by (simp add: ompi_io_bbview_sort_offlen_def)
  moreover have "sorted (map (\<lambda>t. offset (io ! t)) t3)"
    using inv l3 unfolding extract_inv_def sorted_iff_nth_mono_less by (auto simp: key_def)
  moreover have "mset t3 = mset [0..<?n]" using inv unfolding extract_inv_def is_perm_def by blast
  ultimately show ?thesis by blast
qed

section \<open>The contract of the sort\<close>

text \<open>
  What a caller may rely on: the caller owns a buffer of one index per record, and gets back
  the indices in ascending order of offset.
\<close>

locale offset_sorter =
  fixes sort_offlen :: "offlen list \<Rightarrow> nat list option"
  assumes sort_total: "io \<noteq> [] \<Longrightarrow> length io < 2 ^ 30 \<Longrightarrow> \<exists>s. sort_offlen io = Some s"
    and sort_perm: "io \<noteq> [] \<Longrightarrow> length io < 2 ^ 30 \<Longrightarrow> sort_offlen io = Some s \<Longrightarrow> mset s = mset [0..<length io]"
    and sort_ordered: "io \<noteq> [] \<Longrightarrow> length io < 2 ^ 30 \<Longrightarrow> sort_offlen io = Some s \<Longrightarrow>
      sorted (map (\<lambda>t. offset (io ! t)) s)"
begin

lemma sort_length:
  assumes "io \<noteq> []" "length io < 2 ^ 30" "sort_offlen io = Some s"
  shows "length s = length io"
  using sort_perm [OF assms] by (metis mset_eq_length length_upt diff_zero)

lemma sort_index:
  assumes "io \<noteq> []" "length io < 2 ^ 30" "sort_offlen io = Some s" "t \<in> set s"
  shows "t < length io"
  using sort_perm [OF assms(1-3)] assms(4) by (metis atLeastLessThan_iff mset_eq_setD set_upt)

end

text \<open>The call as its caller makes it, with both buffers freshly allocated.\<close>

definition sort_indices :: "offlen list \<Rightarrow> nat list option" where
  "sort_indices io =
     (case ompi_io_bbview_sort_offlen (Some (replicate (length io) 0)) io (int (length io))
             (replicate (length io) 0) of
        Some (OMPI_SUCCESS, s) \<Rightarrow> Some s
      | _ \<Rightarrow> None)"

lemma sort_indices_spec:
  assumes "io \<noteq> []" "length io < 2 ^ 30"
  obtains s where "sort_indices io = Some s" "mset s = mset [0..<length io]"
    "sorted (map (\<lambda>t. offset (io ! t)) s)"
  using sort_offlen_total [OF assms, of "replicate (length io) 0" "replicate (length io) 0"]
  by (auto simp: sort_indices_def)

interpretation heap_sorter: offset_sorter sort_indices
proof
  fix io :: "offlen list" and s
  assume h: "io \<noteq> []" "length io < 2 ^ 30"
  show "\<exists>s. sort_indices io = Some s" using sort_indices_spec [OF h] by metis
  assume s: "sort_indices io = Some s"
  show "mset s = mset [0..<length io]" and "sorted (map (\<lambda>t. offset (io ! t)) s)"
    using sort_indices_spec [OF h] s by (metis option.inject)+
qed

section \<open>Properties\<close>

text \<open>C6: for any records (fewer than \<open>2^30\<close>, at least one) the sort returns
  \<open>OMPI_SUCCESS\<close> without undefined behaviour, and \<open>sorted\<close> is then a permutation of all the
  indices that lists the records by ascending offset.\<close>

theorem sort_offlen_correct:
  assumes "io \<noteq> []" and "length io < 2 ^ 30"
    and "length blk = length io" and "length srt = length io"
  shows "\<exists>s. ompi_io_bbview_sort_offlen (Some blk) io (int (length io)) srt = Some (OMPI_SUCCESS, s) \<and>
    mset s = mset [0..<length io] \<and> sorted (map (\<lambda>t. offset (io ! t)) s)"
  by (rule sort_offlen_total [OF assms])

theorem sort_offlen_correct_witness:
  "\<exists>s. ompi_io_bbview_sort_offlen (Some [7, 7, 7])
      [\<lparr>offset = 30, length_of = 1, process_id = 0\<rparr>, \<lparr>offset = 10, length_of = 1, process_id = 1\<rparr>,
       \<lparr>offset = 20, length_of = 1, process_id = 2\<rparr>] 3 [0, 0, 0] = Some (OMPI_SUCCESS, s) \<and>
    mset s = mset [0..<3] \<and> sorted (map (\<lambda>t. [30, 10, 20 :: int] ! t) s)"
proof -
  let ?io = "[\<lparr>offset = 30, length_of = 1, process_id = 0\<rparr>, \<lparr>offset = 10, length_of = 1, process_id = 1\<rparr>,
       \<lparr>offset = 20, length_of = 1, process_id = 2\<rparr>]"
  obtain s where s: "ompi_io_bbview_sort_offlen (Some [7, 7, 7]) ?io (int (length ?io)) [0, 0, 0] =
      Some (OMPI_SUCCESS, s)" "mset s = mset [0..<length ?io]"
    and srt: "sorted (map (\<lambda>t. offset (?io ! t)) s)"
    using sort_offlen_correct [of ?io "[7, 7, 7]" "[0, 0, 0]"] by auto
  have "set s = {0..<3}" using s(2) mset_eq_setD by fastforce
  then have "map (\<lambda>t. offset (?io ! t)) s = map (\<lambda>t. [30, 10, 20 :: int] ! t) s"
    by (auto simp: less_Suc_eq numeral_3_eq_3 nth_Cons')
  then show ?thesis using s srt by (metis One_nat_def Suc_eq_plus1 length_Cons list.size(3) numeral_3_eq_3 of_nat_numeral)
qed

text \<open>An empty list of records is undefined behaviour: \<open>temp_arr[0] = 0\<close> writes past the
  zero-byte block.\<close>

theorem sort_offlen_empty_undefined:
  "ompi_io_bbview_sort_offlen (Some []) [] 0 srt = None"
  by (simp add: ompi_io_bbview_sort_offlen_def wr_def)

end
