(* ===== verification/BBV_View.thy ===== *)
theory BBV_View
  imports BBV_Prelude
begin

text \<open>
  The file view cursor and \<open>ompi_io_bbview_generate_current_file_view\<close>
  (\<open>io_bbview.c\<close>, up to the optional statistics): the part of the handle that the
  sources call \<open>f_fview\<close>, the loop that turns the next \<open>max_data\<close> bytes of the view into a
  list of file extents, and the specification of a view as an endless sequence of file
  addresses. \<open>size_t\<close>, \<open>ptrdiff_t\<close> and file offsets are 64-bit words, so the unsigned
  comparison in the loop is the comparison of the C code; \<open>j\<close> and \<open>k\<close> are C \<open>int\<close>s.
\<close>

section \<open>State\<close>

record iovec =
  iov_base :: "64 word"
  iov_len :: "64 word"

record fview =
  f_decoded_iov :: "iovec list"
  f_iov_count :: "32 word"
  f_offset :: "64 word"
  f_disp :: "64 word"
  f_view_extent :: "64 word"
  f_view_size :: "64 word"
  f_etype_size :: "64 word"
  f_position_in_file_view :: "64 word"
  f_index_in_file_view :: int
  f_total_bytes :: "64 word"

section \<open>The program\<close>

text \<open>
  Lines 83--95: when the current block is used up go to the next one, and from the last
  block to the first block of the next repetition of the view.
\<close>

definition view_advance :: "fview \<Rightarrow> int \<Rightarrow> 64 word \<Rightarrow> (fview \<times> int \<times> 64 word) option" where
  "view_advance fv j sum_previous_counts = do {
     e \<leftarrow> rdi (f_decoded_iov fv) j;
     (if iov_len e - (f_total_bytes fv - sum_previous_counts) \<le> 0 then do {
        let sum' = sum_previous_counts + iov_len e;
        j' \<leftarrow> i32 (j + 1);
        Some (if j' = sint (f_iov_count fv)
              then (fv\<lparr>f_offset := f_offset fv + f_view_extent fv, f_position_in_file_view := 0,
                       f_index_in_file_view := 0, f_total_bytes := 0\<rparr>, 0, 0)
              else (fv, j', sum')) }
      else Some (fv, j, sum_previous_counts)) }"

text \<open>Lines 97--109: the extent \<open>iov[k]\<close>.\<close>

definition view_entry :: "fview \<Rightarrow> int \<Rightarrow> 64 word \<Rightarrow> 64 word \<Rightarrow> iovec option" where
  "view_entry fv j sum_previous_counts bytes_to_write = do {
     e \<leftarrow> rdi (f_decoded_iov fv) j;
     let disp = iov_base e + (f_total_bytes fv - sum_previous_counts);
     let rest = iov_len e - (f_total_bytes fv - sum_previous_counts);
     Some \<lparr>iov_base = disp + f_offset fv,
           iov_len = (if rest \<ge> bytes_to_write then bytes_to_write else rest)\<rparr> }"

text \<open>
  The loop, with \<open>iov\<close> the first \<open>k\<close> entries of the array, whose capacity is
  \<open>init * block\<close> (\<open>init\<close> is \<open>OMPIO_IOVEC_INITIAL_SIZE\<close>); \<open>realloc_ok b\<close> says whether growing
  to \<open>b\<close> blocks succeeds. \<open>Inl\<close> is the return for lack of memory, with the cursor as it is
  left then.
\<close>

partial_function (option) gen_loop ::
  "int \<Rightarrow> (int \<Rightarrow> bool) \<Rightarrow> fview \<Rightarrow> int \<Rightarrow> 64 word \<Rightarrow> 64 word \<Rightarrow> int \<Rightarrow> iovec list \<Rightarrow>
   (fview + fview \<times> int \<times> 64 word \<times> iovec list) option" where
  "gen_loop init realloc_ok fv j sum_previous_counts bytes_to_write block iov =
     (if bytes_to_write = 0 then Some (Inr (fv, j, sum_previous_counts, iov))
      else do {
        cap \<leftarrow> i32 (init * block);
        block' \<leftarrow> (if cap \<le> int (length iov) then i32 (block + 1) else Some block);
        cap' \<leftarrow> i32 (init * block');
        (if block' \<noteq> block \<and> \<not> realloc_ok block' then Some (Inl fv)
         else do {
           (fv1, j1, sum1) \<leftarrow> view_advance fv j sum_previous_counts;
           e \<leftarrow> view_entry fv1 j1 sum1 bytes_to_write;
           iov' \<leftarrow> (if int (length iov) < cap' then Some (iov @ [e]) else None);
           _ \<leftarrow> i32 (int (length iov) + 1);
           gen_loop init realloc_ok (fv1\<lparr>f_total_bytes := f_total_bytes fv1 + iov_len e\<rparr>)
             j1 sum1 (bytes_to_write - iov_len e) block' iov' }) })"

text \<open>Lines 51--118, with \<open>iov\<close> empty where the code returns before it sets \<open>*f_iov\<close>.\<close>

definition generate_view ::
  "int \<Rightarrow> bool \<Rightarrow> (int \<Rightarrow> bool) \<Rightarrow> fview \<Rightarrow> 64 word \<Rightarrow> (rc \<times> fview \<times> iovec list) option" where
  "generate_view init calloc_ok realloc_ok fv max_data =
     (if \<not> calloc_ok then Some (OMPI_ERR_OUT_OF_RESOURCE, fv, [])
      else do {
        r \<leftarrow> gen_loop init realloc_ok fv (f_index_in_file_view fv) (f_position_in_file_view fv)
               max_data 1 [];
        Some (case r of
            Inl fv' \<Rightarrow> (OMPI_ERR_OUT_OF_RESOURCE, fv', [])
          | Inr (fv', j, prev, iov) \<Rightarrow>
              (OMPI_SUCCESS, fv'\<lparr>f_position_in_file_view := prev, f_index_in_file_view := j\<rparr>, iov)) })"

section \<open>What a view means\<close>

text \<open>
  The decoded blocks tile the file at a distance of \<open>f_view_extent\<close>; \<open>view_byte fv n\<close> is
  the address of the \<open>n\<close>-th byte that the view makes visible, from the start of the
  repetition at \<open>f_offset\<close>.
\<close>

definition lens_sum :: "iovec list \<Rightarrow> nat" where
  "lens_sum es = sum_list (map (\<lambda>e. unat (iov_len e)) es)"

fun locate :: "iovec list \<Rightarrow> nat \<Rightarrow> 64 word" where
  "locate [] n = 0"
| "locate (e # es) n =
     (if n < unat (iov_len e) then iov_base e + of_nat n else locate es (n - unat (iov_len e)))"

definition view_byte :: "fview \<Rightarrow> nat \<Rightarrow> 64 word" where
  "view_byte fv n = f_offset fv + of_nat (n div lens_sum (f_decoded_iov fv)) * f_view_extent fv +
     locate (f_decoded_iov fv) (n mod lens_sum (f_decoded_iov fv))"

definition iov_bytes :: "iovec \<Rightarrow> 64 word list" where
  "iov_bytes e = map (\<lambda>i. iov_base e + of_nat i) [0..<unat (iov_len e)]"

text \<open>The shape of a decoded view, and the cursor's position in it.\<close>

definition view_ok :: "fview \<Rightarrow> bool" where
  "view_ok fv \<longleftrightarrow> f_decoded_iov fv \<noteq> [] \<and> (\<forall>e \<in> set (f_decoded_iov fv). iov_len e \<noteq> 0) \<and>
     length (f_decoded_iov fv) = unat (f_iov_count fv) \<and> length (f_decoded_iov fv) < 2 ^ 31 \<and>
     lens_sum (f_decoded_iov fv) < 2 ^ 64"

definition cursor_ok :: "fview \<Rightarrow> int \<Rightarrow> 64 word \<Rightarrow> bool" where
  "cursor_ok fv j s \<longleftrightarrow> 0 \<le> j \<and> nat j < length (f_decoded_iov fv) \<and>
     unat s = lens_sum (take (nat j) (f_decoded_iov fv)) \<and> unat s \<le> unat (f_total_bytes fv) \<and>
     unat (f_total_bytes fv) \<le> unat s + unat (iov_len (f_decoded_iov fv ! nat j))"

definition fview_wf :: "fview \<Rightarrow> bool" where
  "fview_wf fv \<longleftrightarrow>
     view_ok fv \<and> cursor_ok fv (f_index_in_file_view fv) (f_position_in_file_view fv)"

lemma lens_sum_simps [simp]:
  "lens_sum [] = 0" "lens_sum (e # es) = unat (iov_len e) + lens_sum es"
  "lens_sum (xs @ ys) = lens_sum xs + lens_sum ys"
  by (simp_all add: lens_sum_def)

lemma lens_sum_split:
  "k < length es \<Longrightarrow>
   lens_sum es = lens_sum (take k es) + unat (iov_len (es ! k)) + lens_sum (drop (Suc k) es)"
  by (subst id_take_nth_drop [of k es]) simp_all

lemma locate_at:
  "k < length es \<Longrightarrow> r < unat (iov_len (es ! k)) \<Longrightarrow>
   locate es (lens_sum (take k es) + r) = iov_base (es ! k) + of_nat r"
  by (induction es arbitrary: k) (auto simp: take_Cons nth_Cons split: nat.splits)

lemma iov_bytes_length [simp]: "length (iov_bytes e) = unat (iov_len e)"
  by (simp add: iov_bytes_def)

section \<open>The loop keeps the cursor\<close>

lemma unat_word_sub: "unat b \<le> unat a \<Longrightarrow> unat (a - b) = unat a - unat (b :: 64 word)"
  by (rule unat_sub) (simp add: word_le_nat_alt)

lemma unat_word_add: "unat a + unat b < 2 ^ 64 \<Longrightarrow> unat (a + b) = unat a + unat (b :: 64 word)"
  using unat_add_lem [of a b] by simp

text \<open>\<open>view_byte\<close> reads the cursor's repetition only through its offset and its blocks.\<close>

lemma view_byte_wrap:
  assumes "lens_sum (f_decoded_iov fv) = S" "0 < S"
  shows "view_byte (fv\<lparr>f_offset := f_offset fv + f_view_extent fv, f_position_in_file_view := p,
      f_index_in_file_view := k, f_total_bytes := t\<rparr>) i = view_byte fv (S + i)"
  using assms by (simp add: view_byte_def div_add_self1 algebra_simps)

lemma view_byte_inside:
  assumes ok: "view_ok fv" and k: "k < length (f_decoded_iov fv)"
    and r: "r < unat (iov_len (f_decoded_iov fv ! k))"
  shows "view_byte fv (lens_sum (take k (f_decoded_iov fv)) + r) =
    f_offset fv + iov_base (f_decoded_iov fv ! k) + of_nat r"
proof -
  let ?es = "f_decoded_iov fv"
  have "lens_sum (take k ?es) + r < lens_sum ?es" using lens_sum_split [OF k] r by linarith
  then show ?thesis using locate_at [OF k r] by (simp add: view_byte_def)
qed

definition same_view :: "fview \<Rightarrow> fview \<Rightarrow> bool" where
  "same_view fv fv' \<longleftrightarrow> f_decoded_iov fv' = f_decoded_iov fv \<and> f_iov_count fv' = f_iov_count fv \<and>
     f_view_extent fv' = f_view_extent fv \<and> f_view_size fv' = f_view_size fv \<and>
     f_etype_size fv' = f_etype_size fv \<and> f_disp fv' = f_disp fv"

lemma same_view_refl [simp]: "same_view fv fv"
  by (simp add: same_view_def)

lemma same_view_trans [trans]: "same_view a b \<Longrightarrow> same_view b c \<Longrightarrow> same_view a c"
  by (simp add: same_view_def)

lemma same_view_ok: "same_view fv fv' \<Longrightarrow> view_ok fv' \<longleftrightarrow> view_ok fv"
  by (simp add: same_view_def view_ok_def)

text \<open>The cursor stays in a block that is not used up; at its end it goes to the next block or, from
  the last one, to the start of the next repetition.\<close>

lemma view_advance_eq:
  assumes ok: "view_ok fv" and cur: "cursor_ok fv j s"
  defines "e \<equiv> f_decoded_iov fv ! nat j" and "t \<equiv> f_total_bytes fv"
  shows "view_advance fv j s = Some
    (if unat t \<noteq> unat s + unat (iov_len e) then (fv, j, s)
     else if Suc (nat j) = length (f_decoded_iov fv)
       then (fv\<lparr>f_offset := f_offset fv + f_view_extent fv, f_position_in_file_view := 0,
               f_index_in_file_view := 0, f_total_bytes := 0\<rparr>, 0, 0)
     else (fv, j + 1, s + iov_len e))"
proof -
  let ?es = "f_decoded_iov fv"
  have j: "0 \<le> j" "nat j < length ?es" using cur unfolding cursor_ok_def by blast+
  have lo: "unat s \<le> unat t" "unat t \<le> unat s + unat (iov_len e)" using cur unfolding cursor_ok_def e_def t_def by blast+
  have cnt: "length ?es = unat (f_iov_count fv)" "length ?es < 2 ^ 31" using ok unfolding view_ok_def by blast+
  have rem: "iov_len e = t - s \<longleftrightarrow> unat t = unat s + unat (iov_len e)"
    using lo by (auto simp: word_unat_eq_iff unat_word_sub)
  have at: "rdi ?es j = Some e" unfolding e_def using j by (rule rdi_Some)
  have step: "i32 (j + 1) = Some (j + 1)" using j cnt(2) by (simp add: i32_def)
  have "sint (f_iov_count fv) = int (length ?es)" using cnt by (simp add: sint_small32 del: of_nat_unat)
  then have last: "j + 1 = sint (f_iov_count fv) \<longleftrightarrow> Suc (nat j) = length ?es" using j by linarith
  show ?thesis
    using rem at step last by (auto simp: view_advance_def t_def)
qed

lemma view_advance_spec:
  assumes ok: "view_ok fv" and cur: "cursor_ok fv j s"
  obtains fv1 j1 s1 where "view_advance fv j s = Some (fv1, j1, s1)" "same_view fv fv1"
    "cursor_ok fv1 j1 s1"
    "unat (f_total_bytes fv1) < unat s1 + unat (iov_len (f_decoded_iov fv1 ! nat j1))"
    "\<And>i. view_byte fv1 (unat (f_total_bytes fv1) + i) = view_byte fv (unat (f_total_bytes fv) + i)"
proof -
  let ?es = "f_decoded_iov fv" and ?k = "nat j" and ?t = "f_total_bytes fv"
  have j: "0 \<le> j" "?k < length ?es" and us: "unat s = lens_sum (take ?k ?es)"
    and hi: "unat ?t \<le> unat s + unat (iov_len (?es ! ?k))"
    using cur unfolding cursor_ok_def by blast+
  have pos: "0 < unat (iov_len e)" if "e \<in> set ?es" for e
    using ok that unfolding view_ok_def by (simp add: unat_gt_0)
  note adv = view_advance_eq [OF ok cur]
  consider (stay) "unat ?t \<noteq> unat s + unat (iov_len (?es ! ?k))"
    | (last) "unat ?t = unat s + unat (iov_len (?es ! ?k))" "Suc ?k = length ?es"
    | (more) "unat ?t = unat s + unat (iov_len (?es ! ?k))" "Suc ?k \<noteq> length ?es" by blast
  then show ?thesis
  proof cases
    case stay
    then show ?thesis by (intro that [of fv j s]) (use adv cur hi in simp_all)
  next
    case last
    let ?fv = "fv\<lparr>f_offset := f_offset fv + f_view_extent fv, f_position_in_file_view := 0,
      f_index_in_file_view := 0, f_total_bytes := 0\<rparr>"
    have S_t: "lens_sum ?es = unat ?t" using lens_sum_split [OF j(2)] last us by simp
    have t0: "0 < unat ?t" using pos [of "?es ! ?k"] last j by simp
    have ne: "?es \<noteq> []" using j(2) by auto
    show ?thesis
    proof (rule that [of ?fv 0 0])
      show "view_byte ?fv (unat (f_total_bytes ?fv) + i) = view_byte fv (unat ?t + i)" for i
        using view_byte_wrap [OF S_t t0, of 0 0 0 i] by simp
    qed (use adv last pos ne in \<open>simp_all add: same_view_def cursor_ok_def\<close>)
  next
    case more
    have S: "lens_sum ?es = unat ?t + lens_sum (drop (Suc ?k) ?es)"
      using lens_sum_split [OF j(2)] more us by simp
    have "lens_sum ?es < 2 ^ 64" using ok unfolding view_ok_def by blast
    then have s': "unat (s + iov_len (?es ! ?k)) = unat ?t" using S more by (simp add: unat_word_add)
    have next_j: "nat (j + 1) = Suc ?k" "Suc ?k < length ?es" using j more by linarith+
    show ?thesis
    proof (rule that [of fv "j + 1" "s + iov_len (?es ! ?k)"])
      show "cursor_ok fv (j + 1) (s + iov_len (?es ! ?k))"
        using s' us more j next_j by (simp add: cursor_ok_def take_Suc_conv_app_nth)
      show "unat ?t < unat (s + iov_len (?es ! ?k)) + unat (iov_len (?es ! nat (j + 1)))"
        using s' next_j pos by simp
    qed (use adv more in simp_all)
  qed
qed

section \<open>The extents are the bytes of the view\<close>

lemma view_entry_spec:
  assumes ok: "view_ok fv" and cur: "cursor_ok fv j s"
    and room: "unat (f_total_bytes fv) < unat s + unat (iov_len (f_decoded_iov fv ! nat j))"
    and n: "bytes \<noteq> 0"
  obtains e where "view_entry fv j s bytes = Some e" "iov_len e \<noteq> 0" "iov_len e \<le> bytes"
    "cursor_ok (fv\<lparr>f_total_bytes := f_total_bytes fv + iov_len e\<rparr>) j s"
    "unat (f_total_bytes fv + iov_len e) = unat (f_total_bytes fv) + unat (iov_len e)"
    "iov_bytes e = map (\<lambda>i. view_byte fv (unat (f_total_bytes fv) + i)) [0..<unat (iov_len e)]"
proof -
  let ?es = "f_decoded_iov fv" and ?k = "nat j" and ?t = "f_total_bytes fv"
  have j: "0 \<le> j" "?k < length ?es" and us: "unat s = lens_sum (take ?k ?es)"
    and lo: "unat s \<le> unat ?t" using cur unfolding cursor_ok_def by blast+
  let ?d = "unat ?t - unat s"
  let ?rest = "iov_len (?es ! ?k) - (?t - s)"
  have d: "unat (?t - s) = ?d" using lo by (rule unat_word_sub)
  have rest: "unat ?rest = unat (iov_len (?es ! ?k)) - ?d"
    using room lo by (subst unat_word_sub) (simp_all add: d)
  define e where "e = \<lparr>iov_base = iov_base (?es ! ?k) + (?t - s) + f_offset fv,
    iov_len = (if ?rest \<ge> bytes then bytes else ?rest)\<rparr>"
  have ent: "view_entry fv j s bytes = Some e"
    using j by (simp add: view_entry_def rdi_Some e_def)
  have len: "unat (iov_len e) = min (unat bytes) (unat (iov_len (?es ! ?k)) - ?d)"
    by (simp add: e_def rest word_le_nat_alt min_def)
  have bnd: "unat s + unat (iov_len (?es ! ?k)) < 2 ^ 64"
    using ok lens_sum_split [OF j(2)] us unfolding view_ok_def by linarith
  have "unat (iov_len e) \<noteq> 0" using len room lo n unat_gt_0 [of bytes] by linarith
  then have ne: "iov_len e \<noteq> 0" by (simp add: unat_eq_0)
  have le: "iov_len e \<le> bytes" using len by (simp add: word_le_nat_alt)
  have tot: "unat (?t + iov_len e) = unat ?t + unat (iov_len e)"
    using len room lo bnd by (intro unat_word_add) linarith
  have "iov_base (?es ! ?k) + (?t - s) + f_offset fv + of_nat i = view_byte fv (unat ?t + i)"
    if i: "i < unat (iov_len e)" for i
  proof -
    have "?d + i < unat (iov_len (?es ! ?k))" using i unfolding len by linarith
    from view_byte_inside [OF ok j(2) this]
    have "view_byte fv (unat s + (?d + i)) = f_offset fv + iov_base (?es ! ?k) + of_nat (?d + i)"
      by (simp only: us)
    moreover have "unat s + (?d + i) = unat ?t + i" using lo by simp
    moreover have "of_nat (?d + i) = (?t - s) + of_nat i"
      unfolding d [symmetric] by simp
    ultimately show ?thesis by (simp add: add.assoc add.commute add.left_commute)
  qed
  then have "iov_bytes e = map (\<lambda>i. view_byte fv (unat ?t + i)) [0..<unat (iov_len e)]"
    by (simp add: iov_bytes_def e_def)
  moreover have "cursor_ok (fv\<lparr>f_total_bytes := ?t + iov_len e\<rparr>) j s"
  proof -
    have "unat ?t + unat (iov_len e) \<le> unat s + unat (iov_len (?es ! ?k))"
      using len room lo by linarith
    then show ?thesis using j us lo tot by (simp add: cursor_ok_def)
  qed
  ultimately show ?thesis using that [OF ent ne le _ tot] by blast
qed

lemma map_upt_split: "map f [0..<a + b] = map f [0..<a] @ map (\<lambda>i. f (a + i)) [0..<b]"
proof -
  have "map (\<lambda>i. f (a + i)) [0..<b] = map f [a..<a + b]"
    by (rule nth_equalityI) auto
  moreover have "[0..<a + b] = [0..<a] @ [a..<a + b]" by (rule upt_add_eq_append) simp
  ultimately show ?thesis by (simp only: map_append)
qed

text \<open>What one run of the loop has produced when it stops with success.\<close>

definition covers :: "fview \<Rightarrow> nat \<Rightarrow> iovec list \<Rightarrow> fview \<Rightarrow> bool" where
  "covers fv n es fv' \<longleftrightarrow>
     concat (map iov_bytes es) = map (\<lambda>i. view_byte fv (unat (f_total_bytes fv) + i)) [0..<n] \<and>
     (\<forall>i. view_byte fv' (unat (f_total_bytes fv') + i) = view_byte fv (unat (f_total_bytes fv) + n + i)) \<and>
     (\<forall>e \<in> set es. iov_len e \<noteq> 0) \<and> same_view fv fv'"

lemma covers_step:
  assumes adv: "\<And>i. view_byte fv1 (unat (f_total_bytes fv1) + i) = view_byte fv (unat (f_total_bytes fv) + i)"
    and sv: "same_view fv fv1"
    and eb: "iov_bytes e = map (\<lambda>i. view_byte fv1 (unat (f_total_bytes fv1) + i)) [0..<unat (iov_len e)]"
    and ne: "iov_len e \<noteq> 0" and tot: "unat (f_total_bytes fv1 + iov_len e) = unat (f_total_bytes fv1) + unat (iov_len e)"
    and rest: "covers (fv1\<lparr>f_total_bytes := f_total_bytes fv1 + iov_len e\<rparr>) n es fv'"
  shows "covers fv (unat (iov_len e) + n) (e # es) fv'"
proof -
  have "view_byte (fv1\<lparr>f_total_bytes := t\<rparr>) = view_byte fv1" for t
    by (simp add: view_byte_def fun_eq_iff)
  moreover have "view_byte fv1 (unat (f_total_bytes fv1) + unat (iov_len e) + i) =
      view_byte fv (unat (f_total_bytes fv) + unat (iov_len e) + i)" for i
    using adv [of "unat (iov_len e) + i"] by (simp add: add.assoc)
  ultimately show ?thesis
    using rest sv eb ne tot adv unfolding covers_def same_view_def
    by (simp add: map_upt_split add.assoc)
qed

text \<open>One round of the loop, when the numbers are in range: the array grows when it is full.\<close>

lemma gen_loop_unfold:
  assumes init: "0 < init" "1 \<le> block" "int (length iov) \<le> init * block" "init * block \<le> int (length iov) + init"
    and small: "int (length iov) + int (unat bytes) + 2 * init < 2 ^ 31" and nz: "bytes \<noteq> 0"
  shows "gen_loop init realloc_ok fv j s bytes block iov =
    (let block' = (if init * block \<le> int (length iov) then block + 1 else block) in
     if block' \<noteq> block \<and> \<not> realloc_ok block' then Some (Inl fv)
     else do {
       (fv1, j1, s1) \<leftarrow> view_advance fv j s;
       e \<leftarrow> view_entry fv1 j1 s1 bytes;
       gen_loop init realloc_ok (fv1\<lparr>f_total_bytes := f_total_bytes fv1 + iov_len e\<rparr>) j1 s1 (bytes - iov_len e) block'
         (iov @ [e]) })"
proof -
  define block' where "block' = (if init * block \<le> int (length iov) then block + 1 else block)"
  have cap': "int (length iov) < init * block'" "init * block' \<le> int (length iov) + init"
    using init by (auto simp: block'_def algebra_simps)
  have bi: "block \<le> init * block" using init(1,2) by (simp add: mult_le_cancel_right1)
  have "init * block < 2 ^ 31" "init * block' < 2 ^ 31" "block + 1 < 2 ^ 31" "int (length iov) + 1 < 2 ^ 31"
    and "0 \<le> init * block" "0 \<le> init * block'"
    using init small cap' bi of_nat_0_le_iff [of "unat bytes"] of_nat_0_le_iff [of "length iov"]
    by linarith+
  then have r: "i32 (init * block) = Some (init * block)" "i32 (init * block') = Some (init * block')"
    "i32 (block + 1) = Some (block + 1)" "i32 (int (length iov) + 1) = Some (int (length iov) + 1)"
    using init(2) unfolding i32_def by simp_all
  then have blk: "(if init * block \<le> int (length iov) then i32 (block + 1) else Some block) = Some block'"
    by (simp add: block'_def)
  show ?thesis
    unfolding block'_def [symmetric] Let_def
    using nz cap'(1) by (subst gen_loop.simps) (auto simp: r blk)
qed

lemma gen_loop_correct:
  assumes "view_ok fv" and "cursor_ok fv j s" and "0 < init" and "1 \<le> block"
    and "int (length iov) \<le> init * block" and "init * block \<le> int (length iov) + init"
    and "int (length iov) + int (unat bytes) + 2 * init < 2 ^ 31"
  shows "(\<exists>fv' j' s' es. gen_loop init realloc_ok fv j s bytes block iov = Some (Inr (fv', j', s', iov @ es)) \<and>
      cursor_ok fv' j' s' \<and> covers fv (unat bytes) es fv') \<or>
    (\<exists>fv' b. gen_loop init realloc_ok fv j s bytes block iov = Some (Inl fv') \<and> \<not> realloc_ok b)"
  using assms
proof (induction "unat bytes" arbitrary: fv j s bytes block iov rule: less_induct)
  case less
  note prems = less.prems
  let ?run = "gen_loop init realloc_ok fv j s bytes block iov"
  show ?case
  proof (cases "bytes = 0")
    case True
    then have "?run = Some (Inr (fv, j, s, iov @ []))" by (simp add: gen_loop.simps)
    moreover have "covers fv (unat bytes) [] fv" using True by (simp add: covers_def)
    ultimately show ?thesis using prems(2) by blast
  next
    case nz: False
    define block' where "block' = (if init * block \<le> int (length iov) then block + 1 else block)"
    have cap': "int (length iov) < init * block'" "init * block' \<le> int (length iov) + init" "block \<le> block'"
      using prems(3-6) by (auto simp: block'_def algebra_simps)
    note unfold = gen_loop_unfold [OF prems(3-7) nz, folded block'_def, unfolded Let_def]
    show ?thesis
    proof (cases "block' \<noteq> block \<and> \<not> realloc_ok block'")
      case True
      then have "?run = Some (Inl fv)" by (simp add: unfold)
      with True show ?thesis by blast
    next
      case grown: False
      obtain fv1 j1 s1 where adv: "view_advance fv j s = Some (fv1, j1, s1)" and sv: "same_view fv fv1"
        and cur1: "cursor_ok fv1 j1 s1"
        and room: "unat (f_total_bytes fv1) < unat s1 + unat (iov_len (f_decoded_iov fv1 ! nat j1))"
        and vb: "\<And>i. view_byte fv1 (unat (f_total_bytes fv1) + i) = view_byte fv (unat (f_total_bytes fv) + i)"
        using view_advance_spec [OF prems(1,2)] by metis
      have ok1: "view_ok fv1" using sv prems(1) by (simp add: same_view_ok)
      obtain e where ent: "view_entry fv1 j1 s1 bytes = Some e" and ne: "iov_len e \<noteq> 0"
        and le: "iov_len e \<le> bytes"
        and cur2: "cursor_ok (fv1\<lparr>f_total_bytes := f_total_bytes fv1 + iov_len e\<rparr>) j1 s1"
        and tot: "unat (f_total_bytes fv1 + iov_len e) = unat (f_total_bytes fv1) + unat (iov_len e)"
        and eb: "iov_bytes e = map (\<lambda>i. view_byte fv1 (unat (f_total_bytes fv1) + i)) [0..<unat (iov_len e)]"
        using view_entry_spec [OF ok1 cur1 room nz] by metis
      let ?fv2 = "fv1\<lparr>f_total_bytes := f_total_bytes fv1 + iov_len e\<rparr>"
      let ?b2 = "bytes - iov_len e"
      have b2: "unat ?b2 = unat bytes - unat (iov_len e)" "unat (iov_len e) \<le> unat bytes"
        "0 < unat (iov_len e)"
        using le ne by (simp_all add: unat_word_sub word_le_nat_alt unat_gt_0)
      have run: "?run = gen_loop init realloc_ok ?fv2 j1 s1 ?b2 block' (iov @ [e])"
        using grown by (auto simp: unfold adv ent)
      have ok2: "view_ok ?fv2" using ok1 by (simp add: view_ok_def)
      have "(\<exists>fv' j' s' es. ?run = Some (Inr (fv', j', s', (iov @ [e]) @ es)) \<and>
          cursor_ok fv' j' s' \<and> covers ?fv2 (unat ?b2) es fv') \<or>
        (\<exists>fv' b. ?run = Some (Inl fv') \<and> \<not> realloc_ok b)"
        unfolding run
      proof (rule less.hyps [OF _ ok2 cur2 prems(3)])
        have "int (unat ?b2) + 1 \<le> int (unat bytes)" using b2 by linarith
        then show "int (length (iov @ [e])) + int (unat ?b2) + 2 * init < 2 ^ 31"
          using prems(7) by (simp del: of_nat_unat)
      qed (use b2 prems(4) cap' in auto)
      then show ?thesis
      proof (elim disjE exE conjE)
        fix fv' j' s' es
        assume r: "?run = Some (Inr (fv', j', s', (iov @ [e]) @ es))" "cursor_ok fv' j' s'"
          and c: "covers ?fv2 (unat ?b2) es fv'"
        have "covers fv (unat bytes) (e # es) fv'"
          using covers_step [OF vb sv eb ne tot c] b2 by simp
        then show ?thesis using r by (metis append.assoc append_Cons append_Nil)
      qed blast
    qed
  qed
qed

section \<open>The whole call\<close>

text \<open>The bytes that the cursor will deliver next.\<close>

definition view_stream :: "fview \<Rightarrow> nat \<Rightarrow> 64 word" where
  "view_stream fv i = view_byte fv (unat (f_total_bytes fv) + i)"

lemma generate_view_outcomes:
  assumes wf: "fview_wf fv" and init: "0 < init" and small: "int (unat max_data) + 2 * init < 2 ^ 31"
  shows "(\<exists>fv' iov. generate_view init True realloc_ok fv max_data = Some (OMPI_SUCCESS, fv', iov) \<and>
      fview_wf fv' \<and> same_view fv fv' \<and> (\<forall>e \<in> set iov. iov_len e \<noteq> 0) \<and>
      concat (map iov_bytes iov) = map (view_stream fv) [0..<unat max_data] \<and>
      (\<forall>i. view_stream fv' i = view_stream fv (unat max_data + i))) \<or>
    (\<exists>fv' b. generate_view init True realloc_ok fv max_data = Some (OMPI_ERR_OUT_OF_RESOURCE, fv', []) \<and>
      \<not> realloc_ok b)"
proof -
  have ok: "view_ok fv" and cur: "cursor_ok fv (f_index_in_file_view fv) (f_position_in_file_view fv)"
    using wf by (simp_all add: fview_wf_def)
  have bounds: "int (length ([] :: iovec list)) \<le> init * 1" "init * 1 \<le> int (length ([] :: iovec list)) + init"
    "int (length ([] :: iovec list)) + int (unat max_data) + 2 * init < 2 ^ 31"
    using init small by simp_all
  from gen_loop_correct [OF ok cur init order_refl bounds, of realloc_ok] show ?thesis
  proof (elim disjE exE conjE)
    fix fv' j' s' es
    assume r: "gen_loop init realloc_ok fv (f_index_in_file_view fv) (f_position_in_file_view fv)
        max_data 1 [] = Some (Inr (fv', j', s', [] @ es))"
      and cur': "cursor_ok fv' j' s'" and cov: "covers fv (unat max_data) es fv'"
    let ?fv = "fv'\<lparr>f_position_in_file_view := s', f_index_in_file_view := j'\<rparr>"
    have "same_view fv ?fv" using cov by (simp add: covers_def same_view_def)
    moreover from this have "fview_wf ?fv"
      using ok cur' same_view_ok by (auto simp: fview_wf_def cursor_ok_def)
    moreover have "view_stream ?fv i = view_stream fv (unat max_data + i)" for i
      using cov by (simp add: covers_def view_stream_def view_byte_def add.assoc)
    moreover have "generate_view init True realloc_ok fv max_data = Some (OMPI_SUCCESS, ?fv, es)"
      using r by (simp add: generate_view_def)
    ultimately show ?thesis using cov by (auto simp: covers_def view_stream_def)
  qed (auto simp: generate_view_def)
qed

lemma generate_view_total:
  assumes "fview_wf fv" "0 < init" "int (unat max_data) + 2 * init < 2 ^ 31"
  obtains fv' iov where "generate_view init True (\<lambda>_. True) fv max_data = Some (OMPI_SUCCESS, fv', iov)"
    "fview_wf fv'" "same_view fv fv'" "\<forall>e \<in> set iov. iov_len e \<noteq> 0"
    "concat (map iov_bytes iov) = map (view_stream fv) [0..<unat max_data]"
    "\<And>i. view_stream fv' i = view_stream fv (unat max_data + i)"
  using generate_view_outcomes [OF assms, of "\<lambda>_. True"] by blast

section \<open>Running out of memory\<close>

text \<open>
  A run in which the array can always grow decides every other run: the array grows to \<open>b\<close> blocks
  exactly when more than \<open>init * (b - 1)\<close> entries are stored in the end.
\<close>

definition growth_ok :: "int \<Rightarrow> (int \<Rightarrow> bool) \<Rightarrow> int \<Rightarrow> iovec list \<Rightarrow> bool" where
  "growth_ok init realloc_ok block iov \<longleftrightarrow>
     (\<forall>b > block. init * (b - 1) < int (length iov) \<longrightarrow> realloc_ok b)"

lemma growth_ok_Suc:
  assumes "init * block < int (length iov)"
  shows "growth_ok init realloc_ok block iov \<longleftrightarrow> realloc_ok (block + 1) \<and> growth_ok init realloc_ok (block + 1) iov"
proof -
  have "b > block \<longleftrightarrow> b = block + 1 \<or> b > block + 1" for b :: int by linarith
  then show ?thesis using assms by (auto simp: growth_ok_def)
qed

lemma growth_ok_full: "0 < init \<Longrightarrow> int (length iov) \<le> init * block \<Longrightarrow> growth_ok init realloc_ok block iov"
proof -
  assume a: "0 < init" "int (length iov) \<le> init * block"
  have "init * block \<le> init * (b - 1)" if "b > block" for b using a(1) that by (intro mult_left_mono) simp_all
  then show "growth_ok init realloc_ok block iov" using a(2) by (force simp: growth_ok_def)
qed

lemma gen_loop_realloc:
  assumes run: "gen_loop init (\<lambda>_. True) fv j s n block iov = Some r"
    and "0 < init" "int (length iov) \<le> init * block"
  shows "\<exists>fv' j' s' iov'. r = Inr (fv', j', s', iov') \<and> length iov \<le> length iov' \<and>
    (if growth_ok init realloc_ok block iov' then gen_loop init realloc_ok fv j s n block iov = Some r
     else \<exists>x. gen_loop init realloc_ok fv j s n block iov = Some (Inl x))"
proof -
  define P where "P = (\<lambda>init (ok :: int \<Rightarrow> bool) fv j s n block iov r.
    ok = (\<lambda>_. True) \<longrightarrow> 0 < init \<longrightarrow> int (length iov) \<le> init * block \<longrightarrow>
    (\<exists>fv' j' s' iov'. r = Inr (fv', j', s', iov') \<and> length iov \<le> length iov' \<and>
      (if growth_ok init realloc_ok block iov' then gen_loop init realloc_ok fv j s n block iov = Some r
       else \<exists>x. gen_loop init realloc_ok fv j s n block iov = Some (Inl x))))"
  have "P init (\<lambda>_. True) fv j s n block iov r"
  proof (rule gen_loop.raw_induct [OF _ run, of P])
    fix f :: "int \<Rightarrow> (int \<Rightarrow> bool) \<Rightarrow> fview \<Rightarrow> int \<Rightarrow> 64 word \<Rightarrow> 64 word \<Rightarrow> int \<Rightarrow> iovec list \<Rightarrow>
        (fview + fview \<times> int \<times> 64 word \<times> iovec list) option"
    fix init ok fv j s n block iov r
    assume IH: "\<And>init ok fv j s n block iov r. f init ok fv j s n block iov = Some r \<Longrightarrow> P init ok fv j s n block iov r"
      and eq: "(if n = 0 then Some (Inr (fv, j, s, iov))
      else do {
        cap \<leftarrow> i32 (init * block);
        block' \<leftarrow> (if cap \<le> int (length iov) then i32 (block + 1) else Some block);
        cap' \<leftarrow> i32 (init * block');
        (if block' \<noteq> block \<and> \<not> ok block' then Some (Inl fv)
         else do {
           (fv1, j1, sum1) \<leftarrow> view_advance fv j s;
           e \<leftarrow> view_entry fv1 j1 sum1 n;
           iov' \<leftarrow> (if int (length iov) < cap' then Some (iov @ [e]) else None);
           _ \<leftarrow> i32 (int (length iov) + 1);
           f init ok (fv1\<lparr>f_total_bytes := f_total_bytes fv1 + iov_len e\<rparr>)
             j1 sum1 (n - iov_len e) block' iov' }) }) = Some r"
    show "P init ok fv j s n block iov r"
      unfolding P_def
    proof (intro impI)
      assume ok: "ok = (\<lambda>_. True)" and init: "0 < init" and room: "int (length iov) \<le> init * block"
      let ?goal = "\<exists>fv' j' s' iov'. r = Inr (fv', j', s', iov') \<and> length iov \<le> length iov' \<and>
        (if growth_ok init realloc_ok block iov' then gen_loop init realloc_ok fv j s n block iov = Some r
         else \<exists>x. gen_loop init realloc_ok fv j s n block iov = Some (Inl x))"
      show ?goal
      proof (cases "n = 0")
        case True
        then show ?thesis using eq growth_ok_full [OF init room, of realloc_ok] by (auto simp: gen_loop.simps)
      next
        case n: False
        obtain cap block' cap' fv1 j1 sum1 e where
          st: "i32 (init * block) = Some cap" "(if cap \<le> int (length iov) then i32 (block + 1) else Some block) = Some block'"
            "i32 (init * block') = Some cap'" "view_advance fv j s = Some (fv1, j1, sum1)"
            "view_entry fv1 j1 sum1 n = Some e" "int (length iov) < cap'" "i32 (int (length iov) + 1) \<noteq> None"
          and rec: "f init ok (fv1\<lparr>f_total_bytes := f_total_bytes fv1 + iov_len e\<rparr>)
             j1 sum1 (n - iov_len e) block' (iov @ [e]) = Some r"
          using eq n ok by (auto simp: bind_eq_Some_conv split: if_splits)
        let ?fv = "fv1\<lparr>f_total_bytes := f_total_bytes fv1 + iov_len e\<rparr>"
        have cap: "cap = init * block" "cap' = init * block'" using st(1,3) by (simp_all add: i32_eq_Some_iff)
        have room': "int (length (iov @ [e])) \<le> init * block'" using st(6) cap by simp
        from IH [OF rec] ok init room' obtain fv' j' s' iov' where r: "r = Inr (fv', j', s', iov')"
            "length (iov @ [e]) \<le> length iov'"
          and rest: "if growth_ok init realloc_ok block' iov'
            then gen_loop init realloc_ok ?fv j1 sum1 (n - iov_len e) block' (iov @ [e]) = Some r
            else \<exists>x. gen_loop init realloc_ok ?fv j1 sum1 (n - iov_len e) block' (iov @ [e]) = Some (Inl x)"
          unfolding P_def by blast
        have unfold: "gen_loop init realloc_ok fv j s n block iov =
            (if block' \<noteq> block \<and> \<not> realloc_ok block' then Some (Inl fv)
             else gen_loop init realloc_ok ?fv j1 sum1 (n - iov_len e) block' (iov @ [e]))"
          using n st by (subst gen_loop.simps) (auto split: option.splits)
        show ?thesis
        proof (cases "cap \<le> int (length iov)")
          case True
          then have b: "block' = block + 1" using st(2) by (simp add: i32_eq_Some_iff)
          have "init * block < int (length iov')" using True cap(1) r(2) by simp
          note g = growth_ok_Suc [OF this, of realloc_ok]
          show ?thesis using r rest unfold g b by auto
        next
          case False
          then have "block' = block" using st(2) by simp
          then show ?thesis using r rest unfold by auto
        qed
      qed
    qed
  qed
  then show ?thesis using assms(2,3) by (simp add: P_def)
qed

section \<open>The cursor contract\<close>

text \<open>
  What the code that asks for extents relies on: a request for \<open>n\<close> bytes yields exactly
  the next \<open>n\<close> bytes of the stream and moves the cursor past them. A client that splits a
  transfer into several requests then touches the same bytes in the same order.
\<close>

locale byte_cursor =
  fixes next_bytes :: "nat \<Rightarrow> 's \<Rightarrow> ('a list \<times> 's) option"
    and stream :: "'s \<Rightarrow> nat \<Rightarrow> 'a" and ok :: "'s \<Rightarrow> bool" and limit :: nat
  assumes next_total: "ok s \<Longrightarrow> n < limit \<Longrightarrow> \<exists>bs s'. next_bytes n s = Some (bs, s')"
    and next_data: "ok s \<Longrightarrow> n < limit \<Longrightarrow> next_bytes n s = Some (bs, s') \<Longrightarrow> bs = map (stream s) [0..<n]"
    and next_ok: "ok s \<Longrightarrow> n < limit \<Longrightarrow> next_bytes n s = Some (bs, s') \<Longrightarrow> ok s'"
    and next_stream: "ok s \<Longrightarrow> n < limit \<Longrightarrow> next_bytes n s = Some (bs, s') \<Longrightarrow> stream s' i = stream s (n + i)"
begin

fun requests :: "nat list \<Rightarrow> 's \<Rightarrow> ('a list \<times> 's) option" where
  "requests [] s = Some ([], s)"
| "requests (n # ns) s = do {
     (bs, s1) \<leftarrow> next_bytes n s;
     (cs, s2) \<leftarrow> requests ns s1;
     Some (bs @ cs, s2) }"

lemma requests_data:
  assumes "ok s" and "\<forall>n \<in> set ns. n < limit"
  shows "\<exists>s'. requests ns s = Some (map (stream s) [0..<sum_list ns], s') \<and> ok s' \<and>
    (\<forall>i. stream s' i = stream s (sum_list ns + i))"
  using assms
proof (induction ns arbitrary: s)
  case (Cons n ns)
  then have n: "n < limit" by simp
  obtain bs s1 where nx: "next_bytes n s = Some (bs, s1)" using next_total [OF Cons.prems(1) n] by blast
  note facts = next_data [OF Cons.prems(1) n nx] next_ok [OF Cons.prems(1) n nx]
    next_stream [OF Cons.prems(1) n nx]
  from Cons.IH [OF facts(2)] Cons.prems(2) show ?case
    by (auto simp: nx facts(1,3) map_upt_split add.assoc)
qed simp

lemma requests_split:
  assumes "ok s" "\<forall>n \<in> set ns. n < limit" "\<forall>m \<in> set ms. m < limit" "sum_list ns = sum_list ms"
    "requests ns s = Some (bs, s1)" "requests ms s = Some (cs, s2)"
  shows "bs = cs \<and> stream s1 = stream s2"
  using requests_data [OF assms(1,2)] requests_data [OF assms(1,3)] assms(4-6) by auto

end

text \<open>A request as the callback serves it, with the extents flattened to addresses.\<close>

definition view_request :: "nat \<Rightarrow> fview \<Rightarrow> (64 word list \<times> fview) option" where
  "view_request n fv =
     (case generate_view 100 True (\<lambda>_. True) fv (of_nat n) of
        Some (OMPI_SUCCESS, fv', iov) \<Rightarrow> Some (concat (map iov_bytes iov), fv')
      | _ \<Rightarrow> None)"

lemma view_request_spec:
  assumes "fview_wf fv" "n < 2 ^ 30"
  obtains fv' where "view_request n fv = Some (map (view_stream fv) [0..<n], fv')" "fview_wf fv'"
    "\<And>i. view_stream fv' i = view_stream fv (n + i)"
proof -
  have "unat (of_nat n :: 64 word) = n" using assms(2) by (simp add: unat_of_nat)
  then have "int (unat (of_nat n :: 64 word)) + 2 * 100 < 2 ^ 31" using assms(2) by simp
  from generate_view_total [OF assms(1) _ this] obtain fv' iov where
    "generate_view 100 True (\<lambda>_. True) fv (of_nat n) = Some (OMPI_SUCCESS, fv', iov)" "fview_wf fv'"
    "concat (map iov_bytes iov) = map (view_stream fv) [0..<n]"
    "\<And>i. view_stream fv' i = view_stream fv (n + i)"
    using \<open>unat (of_nat n :: 64 word) = n\<close> by (metis zero_less_numeral)
  then show ?thesis by (intro that [of fv']) (simp_all add: view_request_def)
qed

interpretation view_cursor: byte_cursor view_request view_stream fview_wf "2 ^ 30"
proof
  fix fv n bs fv' i
  assume h: "fview_wf fv" "n < (2 ^ 30 :: nat)"
  show "\<exists>bs s'. view_request n fv = Some (bs, s')" using view_request_spec [OF h] by metis
  assume r: "view_request n fv = Some (bs, fv')"
  show "bs = map (view_stream fv) [0..<n]" and "fview_wf fv'" and "view_stream fv' i = view_stream fv (n + i)"
    using view_request_spec [OF h] r by (metis option.inject prod.inject)+
qed

section \<open>Properties\<close>

text \<open>C2: for a well-formed cursor the generated extents, read from left to right, are exactly
  the next \<open>max_data\<close> bytes of the view, none is empty, nothing in the loop is undefined, and
  the cursor is left well-formed, in the same view, and \<open>max_data\<close> bytes further on.\<close>

theorem generate_view_next_bytes:
  assumes "fview_wf fv" and "0 < init" and "int (unat max_data) + 2 * init < 2 ^ 31"
  shows "\<exists>fv' iov. generate_view init True (\<lambda>_. True) fv max_data = Some (OMPI_SUCCESS, fv', iov) \<and>
    concat (map iov_bytes iov) = map (view_stream fv) [0..<unat max_data] \<and>
    (\<forall>e \<in> set iov. iov_len e \<noteq> 0) \<and> fview_wf fv' \<and> same_view fv fv' \<and>
    (\<forall>i. view_stream fv' i = view_stream fv (unat max_data + i))"
  using generate_view_total [OF assms] by metis

definition example_view :: fview where
  "example_view =
     \<lparr>f_decoded_iov = [\<lparr>iov_base = 0, iov_len = 4\<rparr>, \<lparr>iov_base = 8, iov_len = 2\<rparr>],
      f_iov_count = 2, f_offset = 100, f_disp = 100, f_view_extent = 16, f_view_size = 6,
      f_etype_size = 1, f_position_in_file_view = 0, f_index_in_file_view = 0, f_total_bytes = 0\<rparr>"

lemma example_view_wf: "fview_wf example_view"
  by (simp add: fview_wf_def view_ok_def cursor_ok_def example_view_def)

theorem generate_view_next_bytes_witness:
  "\<exists>fv' iov. generate_view 100 True (\<lambda>_. True) example_view 7 = Some (OMPI_SUCCESS, fv', iov) \<and>
    concat (map iov_bytes iov) = [100, 101, 102, 103, 108, 109, 116] \<and> fview_wf fv'"
proof -
  have "map (view_stream example_view) [0..<unat (7 :: 64 word)] = [100, 101, 102, 103, 108, 109, 116]"
    by (simp add: upt_conv_Cons view_stream_def view_byte_def example_view_def)
  then show ?thesis
    using generate_view_next_bytes [of example_view 100 7] example_view_wf by auto
qed

text \<open>C17: What the call on a well-formed cursor does when memory runs out. Let \<open>iov\<close> be the extents
  that it finds when no allocation fails. If the first allocation succeeds and so does every growth that
  these extents need (to \<open>b\<close> blocks when they are more than \<open>init * (b - 1)\<close>), the result is that
  same one; otherwise the call is still defined and returns \<open>OMPI_ERR_OUT_OF_RESOURCE\<close> and no extents,
  after a failed first allocation with the cursor untouched.\<close>

theorem generate_view_error_paths:
  assumes "fview_wf fv" and "0 < init" and "int (unat max_data) + 2 * init < 2 ^ 31"
  shows "\<exists>fv' iov. generate_view init True (\<lambda>_. True) fv max_data = Some (OMPI_SUCCESS, fv', iov) \<and>
    (if calloc_ok \<and> (\<forall>b > 1. init * (b - 1) < int (length iov) \<longrightarrow> realloc_ok b)
     then generate_view init calloc_ok realloc_ok fv max_data = Some (OMPI_SUCCESS, fv', iov)
     else \<exists>fvx. generate_view init calloc_ok realloc_ok fv max_data = Some (OMPI_ERR_OUT_OF_RESOURCE, fvx, []) \<and>
       (\<not> calloc_ok \<longrightarrow> fvx = fv))"
proof -
  obtain fv' iov where all: "generate_view init True (\<lambda>_. True) fv max_data = Some (OMPI_SUCCESS, fv', iov)"
    using generate_view_outcomes [OF assms, of "\<lambda>_. True"] by blast
  then obtain r where r: "gen_loop init (\<lambda>_. True) fv (f_index_in_file_view fv) (f_position_in_file_view fv) max_data 1 [] = Some r"
    by (auto simp: generate_view_def bind_eq_Some_conv)
  have "int (length ([] :: iovec list)) \<le> init * 1" using assms(2) by simp
  from gen_loop_realloc [OF r assms(2) this, of realloc_ok] show ?thesis
    using all r by (cases calloc_ok) (auto simp: generate_view_def growth_ok_def split: if_splits)
qed

lemma example_view_run:
  "generate_view 2 True (\<lambda>_. True) example_view 7 = Some (OMPI_SUCCESS, fv', iov) \<Longrightarrow> length iov = 3"
  by (auto simp: generate_view_def gen_loop.simps example_view_def i32_def view_advance_def view_entry_def rdi_def
      rd_def Let_def)

theorem generate_view_error_paths_witness:
  "(\<exists>fvx. generate_view 2 True (\<lambda>b. b < 2) example_view 7 = Some (OMPI_ERR_OUT_OF_RESOURCE, fvx, [])) \<and>
   (\<exists>fv' iov. generate_view 2 True (\<lambda>b. b < 3) example_view 7 = Some (OMPI_SUCCESS, fv', iov) \<and> length iov = 3) \<and>
   generate_view 2 False (\<lambda>b. True) example_view 7 = Some (OMPI_ERR_OUT_OF_RESOURCE, example_view, [])"
proof (intro conjI)
  note th = generate_view_error_paths [OF example_view_wf, of 2 7]
  obtain fv' iov where r: "generate_view 2 True (\<lambda>_. True) example_view 7 = Some (OMPI_SUCCESS, fv', iov)"
    using th [of True "\<lambda>_. True"] by auto
  have len: "length iov = 3" by (rule example_view_run [OF r])
  have "\<not> (\<forall>b > 1. 2 * (b - 1) < (3::int) \<longrightarrow> b < 2)" by (auto intro!: exI [of _ 2])
  then show "\<exists>fvx. generate_view 2 True (\<lambda>b. b < 2) example_view 7 = Some (OMPI_ERR_OUT_OF_RESOURCE, fvx, [])"
    using th [of True "\<lambda>b. b < 2"] r len by (auto split: if_splits)
  have "\<forall>b > 1. 2 * (b - 1) < (3::int) \<longrightarrow> b < 3" by auto
  then show "\<exists>fv' iov. generate_view 2 True (\<lambda>b. b < 3) example_view 7 = Some (OMPI_SUCCESS, fv', iov) \<and> length iov = 3"
    using th [of True "\<lambda>b. b < 3"] r len by (auto split: if_splits)
  show "generate_view 2 False (\<lambda>b. True) example_view 7 = Some (OMPI_ERR_OUT_OF_RESOURCE, example_view, [])"
    using th [of False "\<lambda>b. True"] by auto
qed

text \<open>C16: splitting a transfer does not change what it touches: asking for \<open>a\<close> bytes and
  then for \<open>b\<close> yields the addresses of one request for \<open>a + b\<close> bytes in the same order, and
  leaves the cursor at the same place of the stream.\<close>

theorem generate_view_split:
  assumes "fview_wf fv" and "a + b < 2 ^ 30"
    and "view_request a fv = Some (x, fv1)" and "view_request b fv1 = Some (y, fv2)"
    and "view_request (a + b) fv = Some (z, fv3)"
  shows "z = x @ y \<and> view_stream fv3 = view_stream fv2"
  using view_cursor.requests_split [of fv "[a + b]" "[a, b]" z fv3 "x @ y" fv2] assms by simp

theorem generate_view_split_witness:
  "\<exists>x fv1 y fv2 z fv3. view_request 3 example_view = Some (x, fv1) \<and> view_request 4 fv1 = Some (y, fv2) \<and>
     view_request 7 example_view = Some (z, fv3) \<and> z = x @ y \<and> view_stream fv3 = view_stream fv2"
proof -
  obtain x fv1 where x: "view_request 3 example_view = Some (x, fv1)"
    using view_cursor.next_total [OF example_view_wf, of 3] by auto
  have "fview_wf fv1" by (rule view_cursor.next_ok [OF example_view_wf _ x]) simp
  then obtain y fv2 where y: "view_request 4 fv1 = Some (y, fv2)"
    using view_cursor.next_total [of fv1 4] by auto
  obtain z fv3 where z: "view_request 7 example_view = Some (z, fv3)"
    using view_cursor.next_total [OF example_view_wf, of 7] by auto
  show ?thesis
    using generate_view_split [OF example_view_wf _ x y, of z fv3] x y z by auto
qed

end
