(* ===== verification/BBV_Text.thy ===== *)
theory BBV_Text
  imports BBV_Prelude
begin

text \<open>
  The parts of the C library's string functions that the program uses: decimal printing
  (\<open>%d\<close>, \<open>%ld\<close>), \<open>snprintf\<close>'s truncation, \<open>strncpy\<close>, \<open>strncmp\<close>, and the reading of a
  \<open>char\<close> array up to its first null byte. A string is the list of the characters before
  the terminating null byte.
\<close>

section \<open>Decimal printing\<close>

definition digit :: "nat \<Rightarrow> char" where
  "digit d = char_of (48 + d)"

fun show_nat :: "nat \<Rightarrow> string" where
  "show_nat n = (if n < 10 then [digit n] else show_nat (n div 10) @ [digit (n mod 10)])"

declare show_nat.simps [simp del]

definition show_int :: "int \<Rightarrow> string" where
  "show_int i = (if i < 0 then CHR ''-'' # show_nat (nat (- i)) else show_nat (nat i))"

definition read_nat :: "string \<Rightarrow> nat" where
  "read_nat s = foldl (\<lambda>a c. a * 10 + (of_char c - 48)) 0 s"

lemma of_char_digit: "d < 10 \<Longrightarrow> of_char (digit d) = 48 + d"
  by (simp add: digit_def)

lemma read_show_nat [simp]: "read_nat (show_nat n) = n"
proof (induction n rule: show_nat.induct)
  case (1 n)
  then show ?case
    by (subst show_nat.simps) (simp add: read_nat_def of_char_digit)
qed

lemma show_nat_inject [simp]: "show_nat a = show_nat b \<longleftrightarrow> a = b"
  by (metis read_show_nat)

lemma digit_range: "d < 10 \<Longrightarrow> digit d \<in> {c. 48 \<le> (of_char c :: nat) \<and> (of_char c :: nat) \<le> 57}"
  by (simp add: of_char_digit)

lemma show_nat_digits: "c \<in> set (show_nat n) \<Longrightarrow> 48 \<le> (of_char c :: nat) \<and> (of_char c :: nat) \<le> 57"
proof (induction n rule: show_nat.induct)
  case (1 n)
  show ?case
  proof (cases "n < 10")
    case True
    with 1 show ?thesis by (subst (asm) show_nat.simps) (simp add: of_char_digit)
  next
    case False
    with "1.prems" have "c \<in> set (show_nat (n div 10)) \<or> c = digit (n mod 10)"
      by (subst (asm) show_nat.simps) auto
    then show ?thesis using "1.IH" [OF False] by (auto simp: of_char_digit)
  qed
qed

lemma show_nat_no_char:
  assumes "(of_char c :: nat) < 48 \<or> 57 < (of_char c :: nat)"
  shows "c \<notin> set (show_nat n)"
  using show_nat_digits [of c n] assms by linarith

lemma show_nat_not_Nil [simp]: "show_nat n \<noteq> []"
  by (subst show_nat.simps) simp

lemma length_show_nat: "n < 10 ^ k \<Longrightarrow> 0 < k \<Longrightarrow> length (show_nat n) \<le> k"
proof (induction n arbitrary: k rule: show_nat.induct)
  case (1 n)
  show ?case
  proof (cases "n < 10")
    case True
    then show ?thesis using "1.prems" by (subst show_nat.simps) simp
  next
    case False
    obtain j where j: "k = Suc j" using "1.prems"(2) gr0_implies_Suc by blast
    with "1.prems" False have "n div 10 < 10 ^ j" by (simp add: less_mult_imp_div_less)
    moreover have "0 < j" using "1.prems"(1) False j by (cases j) simp_all
    ultimately show ?thesis using "1.IH" [OF False] False j by (subst show_nat.simps) simp
  qed
qed

section \<open>Buffers\<close>

text \<open>\<open>snprintf (buf, size, ...)\<close> and \<open>strncpy (buf, s, size - 1)\<close> into a zeroed buffer.\<close>

definition fit :: "nat \<Rightarrow> string \<Rightarrow> string" where
  "fit sz s = take (sz - 1) s"

definition c_string :: "string \<Rightarrow> string" where
  "c_string bytes = takeWhile (\<lambda>c. c \<noteq> CHR 0x00) bytes"

lemma fit_id: "length s < sz \<Longrightarrow> fit sz s = s"
  by (simp add: fit_def)

lemma length_fit: "0 < sz \<Longrightarrow> length (fit sz s) < sz"
  by (simp add: fit_def)

lemma c_string_id: "CHR 0x00 \<notin> set s \<Longrightarrow> c_string s = s"
  by (simp add: c_string_def takeWhile_eq_all_conv) metis

text \<open>\<open>strncmp (a, b, n) == 0\<close>: the first \<open>n\<close> characters agree, up to a common null.\<close>

definition strncmp_eq :: "string \<Rightarrow> string \<Rightarrow> nat \<Rightarrow> bool" where
  "strncmp_eq a b n = (take n (a @ [CHR 0x00]) = take n (b @ [CHR 0x00]))"

lemma strncmp_eq_full:
  assumes "CHR 0x00 \<notin> set a" "CHR 0x00 \<notin> set b" "length b < n"
  shows "strncmp_eq a b n \<longleftrightarrow> a = b"
proof
  assume h: "strncmp_eq a b n"
  have "take n (a @ [CHR 0x00]) = b @ [CHR 0x00]" using h assms(3) by (simp add: strncmp_eq_def)
  then have "c_string (take n (a @ [CHR 0x00])) = b"
    using assms(2) by (simp add: c_string_def takeWhile_append)
  moreover have "length a < n"
  proof (rule ccontr)
    assume "\<not> length a < n"
    then have "take n (a @ [CHR 0x00]) = take n a" by simp
    then have "CHR 0x00 \<in> set (take n a)"
      using \<open>take n (a @ [CHR 0x00]) = b @ [CHR 0x00]\<close> by simp
    then show False using assms(1) in_set_takeD by metis
  qed
  ultimately show "a = b" using assms(1) by (auto simp: c_string_def takeWhile_append takeWhile_eq_all_conv)
qed (simp add: strncmp_eq_def)

lemma strncmp_eq_prefix:
  "n \<le> length a \<Longrightarrow> n \<le> length b \<Longrightarrow> strncmp_eq a b n \<longleftrightarrow> take n a = take n b"
  by (simp add: strncmp_eq_def)

end
