(* ===== verification/BBV_Adjacency.thy ===== *)
theory BBV_Adjacency
  imports BBV_Sort BBV_View BBV_Text
begin

text \<open>
  The optional second half of \<open>ompi_io_bbview_generate_current_file_view\<close>
  (\<open>io_bbview.c\<close>, lines 120--418): every process reports its extents, the root sorts them by
  offset, counts for each pair of processes how often their extents are neighbours in the file,
  and writes the matrix in compressed row storage to \<open>fileview_info.out\<close>. The heap blocks
  are modelled by name, so that double frees are undefined and leaks are visible. The
  collectives \<open>coll_gather\<close> and \<open>coll_gatherv\<close> and the sort of the \<open>ompio\<close> component, whose
  code is not in this repository, are parameters.
\<close>

section \<open>Heap blocks\<close>

datatype blk =
    BRecvcounts | BDispls | BPerProcess | BAllProcess | BSorted | BAdjMatrix | BAdjRow nat
  | BColumnList | BValues | BRowIndex

fun free_all :: "blk list \<Rightarrow> blk list \<Rightarrow> blk list option" where
  "free_all [] live = Some live"
| "free_all (b # bs) live = (if b \<in> set live then free_all bs (remove1 b live) else None)"

abbreviation adj_rows :: "nat \<Rightarrow> blk list" where
  "adj_rows n \<equiv> map BAdjRow [0..<n]"

section \<open>Gathering\<close>

text \<open>Lines 166--172.\<close>

definition per_process_of :: "nat \<Rightarrow> iovec list \<Rightarrow> offlen list" where
  "per_process_of rank iov =
     map (\<lambda>e. \<lparr>offset = sint (iov_base e), length_of = sint (iov_len e), process_id = rank\<rparr>) iov"

text \<open>
  A collective fills its receive buffer exactly: with more elements it would write past the
  block, with fewer the root would go on to read elements nobody wrote.
\<close>

definition fills :: "'a list \<Rightarrow> int \<Rightarrow> 'a list option" where
  "fills xs n = (if int (length xs) = n then Some xs else None)"

text \<open>Lines 193--198: the displacements and \<open>tot_entries\<close>.\<close>

fun displs_from :: "int list \<Rightarrow> int \<Rightarrow> int \<Rightarrow> int list \<Rightarrow> int \<Rightarrow> (int list \<times> int) option" where
  "displs_from [] prev_displ prev_count displs tot_entries = Some (displs, tot_entries)"
| "displs_from (c # cs) prev_displ prev_count displs tot_entries = do {
     d \<leftarrow> i32 (prev_displ + prev_count);
     tot' \<leftarrow> i32 (tot_entries + c);
     displs_from cs d c (displs @ [d]) tot' }"

definition compute_displs :: "int list \<Rightarrow> (int list \<times> int) option" where
  "compute_displs recvcounts = do {
     c0 \<leftarrow> rd recvcounts 0;
     displs_from (tl recvcounts) 0 c0 [0] c0 }"

section \<open>The adjacency matrix\<close>

type_synonym matrix = "int list list"

definition mrd :: "matrix \<Rightarrow> nat \<Rightarrow> nat \<Rightarrow> int option" where
  "mrd M i j = do { r \<leftarrow> rd M i; rd r j }"

definition bump :: "matrix \<Rightarrow> nat \<Rightarrow> nat \<Rightarrow> matrix option" where
  "bump M i j = do {
     r \<leftarrow> rd M i;
     x \<leftarrow> rd r j;
     x' \<leftarrow> i32 (x + 1);
     r' \<leftarrow> wr r j x';
     wr M i r' }"

text \<open>
  Lines 275--280: the loop over \<open>i < tot_entries - 1\<close>, with every access to \<open>sorted\<close>,
  \<open>all_process\<close> and \<open>adj_matrix\<close> checked; \<open>limit\<close> is \<open>tot_entries - 1\<close>.
\<close>

function adjacency :: "offlen list \<Rightarrow> nat list \<Rightarrow> int \<Rightarrow> nat \<Rightarrow> matrix \<Rightarrow> matrix option" where
  "adjacency all_process sorted_ix limit i adj_matrix =
     (if int i < limit then do {
        s \<leftarrow> rd sorted_ix i;
        a \<leftarrow> rd all_process s;
        t \<leftarrow> rd sorted_ix (i + 1);
        b \<leftarrow> rd all_process t;
        let j = process_id a;
        let l = process_id b;
        adj1 \<leftarrow> bump adj_matrix j l;
        adj2 \<leftarrow> bump adj1 l j;
        adjacency all_process sorted_ix limit (i + 1) adj2 }
      else Some adj_matrix)"
  by pat_completeness auto
termination
  by (relation "measure (\<lambda>(_, _, limit, i, _). nat (limit - int i))") auto

declare adjacency.simps [simp del]

definition zero_matrix :: "nat \<Rightarrow> matrix" where
  "zero_matrix n = replicate n (replicate n 0)"

text \<open>Lines 283--290.\<close>

definition count_positive :: "matrix \<Rightarrow> nat" where
  "count_positive M = sum_list (map (\<lambda>r. length (filter (\<lambda>x. x > 0) r)) M)"

section \<open>Compressed row storage\<close>

text \<open>
  Lines 356--371. \<open>values\<close> and \<open>column_list\<close> have room for \<open>m\<close> entries; the store into
  them is checked.
\<close>

record crs =
  crs_values :: "int list"
  crs_columns :: "nat list"
  crs_rows :: "nat list"

fun crs_row :: "nat \<Rightarrow> int list \<Rightarrow> nat \<Rightarrow> int list \<times> nat list \<times> nat
    \<Rightarrow> (int list \<times> nat list \<times> nat) option" where
  "crs_row m [] j acc = Some acc"
| "crs_row m (x # xs) j (vs, cols, r_index) =
     (if x > 0 then
        (if length vs < m then crs_row m xs (Suc j) (vs @ [x], cols @ [j], r_index + 1) else None)
      else crs_row m xs (Suc j) (vs, cols, r_index))"

fun crs_build :: "nat \<Rightarrow> matrix \<Rightarrow> int list \<times> nat list \<times> nat \<Rightarrow> nat list \<Rightarrow> crs option" where
  "crs_build m [] (vs, cols, r_index) row_index =
     Some \<lparr>crs_values = vs, crs_columns = cols, crs_rows = row_index\<rparr>"
| "crs_build m (row # rows) acc row_index = do {
     (vs, cols, r_index) \<leftarrow> crs_row m row 0 acc;
     crs_build m rows (vs, cols, r_index) (row_index @ [r_index]) }"

definition compress :: "matrix \<Rightarrow> crs option" where
  "compress M = crs_build (count_positive M) M ([], [], 1) [1]"

text \<open>The text of \<open>fileview_info.out\<close> (lines 304, 355, 364 and 373--381).\<close>

definition report_header :: string where
  "report_header = ''FILEVIEW'' @ [CHR 0x0A]"

definition crs_text :: "nat \<Rightarrow> crs \<Rightarrow> string" where
  "crs_text f_size c =
     report_header @
     show_nat (length (crs_values c)) @ '' '' @ show_nat (f_size + 1) @ [CHR 0x0A] @
     concat (map (\<lambda>j. show_nat j @ '' '') (crs_columns c)) @ [CHR 0x0A] @
     concat (map (\<lambda>v. show_int v @ '' '') (crs_values c)) @ [CHR 0x0A] @
     concat (map (\<lambda>r. show_nat r @ '' '') (crs_rows c)) @ [CHR 0x0A]"

section \<open>The root's report\<close>

text \<open>
  In \<open>report_env\<close>, \<open>gathered_counts\<close> takes the number \<open>k\<close> this process contributes and
  \<open>gathered_entries\<close> the records it contributes and the displacements. The last component of a
  result is what the call leaves in \<open>fileview_info.out\<close>; \<open>None\<close> means that the call did not
  touch the file.
\<close>

record report_env =
  alloc_ok :: "blk \<Rightarrow> bool"                      \<comment> \<open>whether each \<open>malloc\<close> succeeds\<close>
  fopen_ok :: bool
  gathered_counts :: "nat \<Rightarrow> int list"            \<comment> \<open>what \<open>coll_gather\<close> leaves at the root\<close>
  gathered_entries :: "offlen list \<Rightarrow> int list \<Rightarrow> offlen list"   \<comment> \<open>what \<open>coll_gatherv\<close> leaves\<close>
  ompio_sort :: "offlen list \<Rightarrow> int \<Rightarrow> nat list option" \<comment> \<open>\<open>ompi_io_ompio_sort_offlen\<close>\<close>

type_synonym report_result = "rc \<times> blk list \<times> string option"

definition fail_with :: "rc \<Rightarrow> string option \<Rightarrow> blk list \<Rightarrow> blk list \<Rightarrow> report_result option" where
  "fail_with code out frees live = do { live' \<leftarrow> free_all frees live; Some (code, live', out) }"

text \<open>Lines 231--246: the rows of the matrix; on failure everything is freed.\<close>

fun alloc_rows :: "report_env \<Rightarrow> nat \<Rightarrow> nat \<Rightarrow> blk list \<Rightarrow> (report_result + blk list) option" where
  "alloc_rows env i 0 live = Some (Inr live)"
| "alloc_rows env i (Suc k) live =
     (if alloc_ok env (BAdjRow i) then alloc_rows env (Suc i) k (BAdjRow i # live)
      else do {
        r \<leftarrow> fail_with OMPI_ERR_OUT_OF_RESOURCE None
          (adj_rows i @ [BAdjMatrix, BSorted, BAllProcess, BPerProcess, BRecvcounts, BDispls]) live;
        Some (Inl r) })"

text \<open>Lines 192--253.\<close>

definition root_alloc :: "report_env \<Rightarrow> nat \<Rightarrow> blk list \<Rightarrow> (report_result + blk list) option" where
  "root_alloc env f_size live =
     (if \<not> alloc_ok env BAllProcess then
        map_option Inl (fail_with OMPI_ERR_OUT_OF_RESOURCE None [BPerProcess, BRecvcounts, BDispls] live)
      else if \<not> alloc_ok env BSorted then
        map_option Inl (fail_with OMPI_ERR_OUT_OF_RESOURCE None
          [BAllProcess, BPerProcess, BRecvcounts, BDispls] (BAllProcess # live))
      else if \<not> alloc_ok env BAdjMatrix then
        map_option Inl (fail_with OMPI_ERR_OUT_OF_RESOURCE None
          [BSorted, BAllProcess, BPerProcess, BRecvcounts, BDispls] (BSorted # BAllProcess # live))
      else alloc_rows env 0 f_size (BAdjMatrix # BSorted # BAllProcess # live))"

text \<open>
  Lines 269--417. \<open>fopen\<close> truncates the file and line 304 writes the first line, so the failures
  after it leave that line behind.
\<close>

definition root_report :: "report_env \<Rightarrow> nat \<Rightarrow> int \<Rightarrow> offlen list \<Rightarrow> blk list \<Rightarrow> report_result option" where
  "root_report env f_size tot_entries all_process live = do {
     sorted_block \<leftarrow> ompio_sort env all_process tot_entries;
     sorted_ix \<leftarrow> fills sorted_block tot_entries;
     limit \<leftarrow> i32 (tot_entries - 1);
     adj_matrix \<leftarrow> adjacency all_process sorted_ix limit 0 (zero_matrix f_size);
     let base = adj_rows f_size @ [BAdjMatrix];
     let rest = [BSorted, BAllProcess, BPerProcess, BRecvcounts, BDispls];
     let header = Some report_header;
     (if \<not> fopen_ok env then fail_with MPI_ERR_OTHER None (base @ rest) live
      else if \<not> alloc_ok env BColumnList then
        fail_with OMPI_ERR_OUT_OF_RESOURCE header (base @ rest) live
      else if \<not> alloc_ok env BValues then
        fail_with OMPI_ERR_OUT_OF_RESOURCE header (base @ [BColumnList] @ rest) (BColumnList # live)
      else if \<not> alloc_ok env BRowIndex then
        fail_with OMPI_ERR_OUT_OF_RESOURCE header (base @ [BValues, BColumnList] @ rest)
          (BValues # BColumnList # live)
      else do {
        c \<leftarrow> compress adj_matrix;
        live' \<leftarrow> free_all ([BRecvcounts, BDispls, BSorted, BPerProcess, BAllProcess, BColumnList,
                            BValues, BRowIndex] @ adj_rows f_size @ [BAdjMatrix])
                   (BRowIndex # BValues # BColumnList # live);
        Some (OMPI_SUCCESS, live', Some (crs_text f_size c)) }) }"

text \<open>
  Lines 138--418. Everything after the gather runs on the root only; \<open>recvcounts\<close> is a block of
  \<open>f_size\<close> and \<open>all_process\<close> one of \<open>tot_entries\<close> elements.
\<close>

definition record_offsets :: "report_env \<Rightarrow> nat \<Rightarrow> nat \<Rightarrow> iovec list \<Rightarrow> report_result option" where
  "record_offsets env f_size f_rank iov =
     (if \<not> alloc_ok env BRecvcounts then Some (OMPI_ERR_OUT_OF_RESOURCE, [], None)
      else if \<not> alloc_ok env BDispls then
        fail_with OMPI_ERR_OUT_OF_RESOURCE None [BRecvcounts] [BRecvcounts]
      else if \<not> alloc_ok env BPerProcess then
        fail_with OMPI_ERR_OUT_OF_RESOURCE None [BRecvcounts, BDispls] [BDispls, BRecvcounts]
      else do {
        let live = [BPerProcess, BDispls, BRecvcounts];
        let per_process = per_process_of f_rank iov;
        (if f_rank \<noteq> 0 then Some (OMPI_SUCCESS, live, None)
         else do {
           recvcounts \<leftarrow> fills (gathered_counts env (length iov)) (int f_size);
           (displs, tot_entries) \<leftarrow> compute_displs recvcounts;
           r \<leftarrow> root_alloc env f_size live;
           (case r of
              Inl res \<Rightarrow> Some res
            | Inr live' \<Rightarrow> do {
                all_process \<leftarrow> fills (gathered_entries env per_process displs) tot_entries;
                root_report env f_size tot_entries all_process live' }) }) })"

text \<open>The callback that the component registers, both halves.\<close>

definition ompi_io_bbview_generate_current_file_view ::
  "int \<Rightarrow> bool \<Rightarrow> (int \<Rightarrow> bool) \<Rightarrow> int \<Rightarrow> report_env \<Rightarrow> nat \<Rightarrow> nat \<Rightarrow> fview \<Rightarrow> 64 word
   \<Rightarrow> (rc \<times> fview \<times> iovec list \<times> blk list \<times> string option) option" where
  "ompi_io_bbview_generate_current_file_view init calloc_ok realloc_ok record_offset_info env
      f_size f_rank fv max_data = do {
     (ret, fv', iov) \<leftarrow> generate_view init calloc_ok realloc_ok fv max_data;
     (if ret \<noteq> OMPI_SUCCESS \<or> record_offset_info = 0 then Some (ret, fv', iov, [], None)
      else do {
        (ret2, live, out) \<leftarrow> record_offsets env f_size f_rank iov;
        Some (ret2, fv', iov, live, out) }) }"

section \<open>The matrix counts neighbours\<close>

definition square :: "nat \<Rightarrow> matrix \<Rightarrow> bool" where
  "square n M \<longleftrightarrow> length M = n \<and> (\<forall>r \<in> set M. length r = n)"

fun pair_count :: "nat list \<Rightarrow> nat \<Rightarrow> nat \<Rightarrow> nat" where
  "pair_count (x # y # r) a b = (if x = a \<and> y = b then 1 else 0) + pair_count (y # r) a b"
| "pair_count _ a b = 0"

lemma square_row: "square n M \<Longrightarrow> i < n \<Longrightarrow> length (M ! i) = n"
  by (simp add: square_def)

lemma pair_count_le: "pair_count os a b \<le> length os"
  by (induction os a b rule: pair_count.induct) auto

lemma bump_Some:
  assumes "square n M" "i < n" "j < n" "- (2 ^ 31) \<le> M ! i ! j" "M ! i ! j + 1 < 2 ^ 31"
  obtains M' where "bump M i j = Some M'" "square n M'"
    "\<And>a b. a < n \<Longrightarrow> b < n \<Longrightarrow> M' ! a ! b = M ! a ! b + (if a = i \<and> b = j then 1 else 0)"
proof -
  let ?r = "(M ! i)[j := M ! i ! j + 1]"
  have len: "length M = n" "length (M ! i) = n" using assms(1,2) by (simp_all add: square_def)
  have "bump M i j = Some (M[i := ?r])"
    unfolding bump_def using assms(2,3) len i32_Some [of "M ! i ! j + 1"] assms(4,5)
    by (simp add: rd_Some wr_Some)
  moreover have "square n (M[i := ?r])"
  proof -
    have "length x = n" if "x \<in> set (M[i := ?r])" for x
      using subsetD [OF set_update_subset_insert that] assms(1) len by (auto simp: square_def)
    then show ?thesis using len by (simp add: square_def)
  qed
  moreover have "M[i := ?r] ! a ! b = M ! a ! b + (if a = i \<and> b = j then 1 else 0)"
    if "a < n" "b < n" for a b
    using that len by (cases "a = i"; cases "b = j") simp_all
  ultimately show ?thesis using that by blast
qed

text \<open>The same loop over the list of the remaining indices.\<close>

fun adj_walk :: "offlen list \<Rightarrow> nat list \<Rightarrow> matrix \<Rightarrow> matrix option" where
  "adj_walk io (s # t # rest) M = do {
     a \<leftarrow> rd io s;
     b \<leftarrow> rd io t;
     M1 \<leftarrow> bump M (process_id a) (process_id b);
     M2 \<leftarrow> bump M1 (process_id b) (process_id a);
     adj_walk io (t # rest) M2 }"
| "adj_walk io _ M = Some M"

lemma adjacency_walk:
  assumes "i < length ss"
  shows "adjacency io ss (int (length ss) - 1) i M = adj_walk io (drop i ss) M"
  using assms
proof (induction "length ss - i" arbitrary: i M)
  case (Suc d)
  show ?case
  proof (cases "Suc i < length ss")
    case True
    have tl: "drop (Suc i) ss = ss ! Suc i # drop (Suc (Suc i)) ss"
      using True by (simp add: Cons_nth_drop_Suc)
    have walk: "adj_walk io (ss ! i # drop (Suc i) ss) M = do {
        a \<leftarrow> rd io (ss ! i);
        b \<leftarrow> rd io (ss ! Suc i);
        M1 \<leftarrow> bump M (process_id a) (process_id b);
        M2 \<leftarrow> bump M1 (process_id b) (process_id a);
        adj_walk io (drop (Suc i) ss) M2 }" for M
      unfolding tl by simp
    have "drop i ss = ss ! i # drop (Suc i) ss" using True by (simp add: Cons_nth_drop_Suc)
    then show ?thesis
      using True Suc by (subst adjacency.simps) (simp add: walk rd_Some Let_def cong: Option.bind_cong)
  next
    case False
    then have "drop i ss = [ss ! i]" using Suc.prems by (simp add: Cons_nth_drop_Suc [symmetric])
    then show ?thesis using False by (subst adjacency.simps) simp
  qed
qed simp

lemma adj_walk_correct:
  assumes "square n M" and "\<forall>s \<in> set ss. s < length io" and "\<forall>e \<in> set io. process_id e < n"
    and "\<And>a b. a < n \<Longrightarrow> b < n \<Longrightarrow> 0 \<le> M ! a ! b \<and> M ! a ! b + 2 * int (length ss) < 2 ^ 31"
  shows "\<exists>M'. adj_walk io ss M = Some M' \<and> square n M' \<and>
    (\<forall>a < n. \<forall>b < n. M' ! a ! b = M ! a ! b +
       int (pair_count (map (\<lambda>s. process_id (io ! s)) ss) a b) +
       int (pair_count (map (\<lambda>s. process_id (io ! s)) ss) b a))"
  using assms
proof (induction ss arbitrary: M rule: induct_list012)
  case (3 s t rest M)
  note prems = "3.prems"
  let ?j = "process_id (io ! s)" and ?l = "process_id (io ! t)"
  have st: "s < length io" "t < length io" using prems(2) by simp_all
  then have jl: "?j < n" "?l < n" using prems(3) by (simp_all add: nth_mem)
  have small: "0 \<le> M ! a ! b \<and> M ! a ! b + 2 * int (length (t # rest)) + 2 < 2 ^ 31" if "a < n" "b < n" for a b
    using prems(4) [OF that] by simp
  have bnd: "- (2 ^ 31) \<le> M ! ?j ! ?l" "M ! ?j ! ?l + 1 < 2 ^ 31"
    using small [OF jl] of_nat_0_le_iff [of "length (t # rest)"] by linarith+
  obtain M1 where b1: "bump M ?j ?l = Some M1" "square n M1"
    and e1: "\<And>a b. a < n \<Longrightarrow> b < n \<Longrightarrow> M1 ! a ! b = M ! a ! b + (if a = ?j \<and> b = ?l then 1 else 0)"
    using bump_Some [OF prems(1) jl bnd] by metis
  have s1: "0 \<le> M1 ! a ! b \<and> M1 ! a ! b + 2 * int (length (t # rest)) + 1 < 2 ^ 31" if "a < n" "b < n" for a b
    using small [OF that] e1 [OF that] by (auto split: if_splits)
  have bnd1: "- (2 ^ 31) \<le> M1 ! ?l ! ?j" "M1 ! ?l ! ?j + 1 < 2 ^ 31"
    using s1 [OF jl(2,1)] of_nat_0_le_iff [of "length (t # rest)"] by linarith+
  obtain M2 where b2: "bump M1 ?l ?j = Some M2" "square n M2"
    and e2: "\<And>a b. a < n \<Longrightarrow> b < n \<Longrightarrow> M2 ! a ! b = M1 ! a ! b + (if a = ?l \<and> b = ?j then 1 else 0)"
    by (rule bump_Some [OF b1(2) jl(2,1)]) (use s1 [OF jl(2,1)] in auto)
  have tl: "\<forall>s \<in> set (t # rest). s < length io" using prems(2) by simp
  have s2: "0 \<le> M2 ! a ! b \<and> M2 ! a ! b + 2 * int (length (t # rest)) < 2 ^ 31" if "a < n" "b < n" for a b
  proof -
    have "M1 ! a ! b \<le> M2 ! a ! b" "M2 ! a ! b \<le> M1 ! a ! b + 1" using e2 [OF that] by simp_all
    then show ?thesis using s1 [OF that] by linarith
  qed
  obtain M' where M': "adj_walk io (t # rest) M2 = Some M'" "square n M'"
    "\<forall>a < n. \<forall>b < n. M' ! a ! b = M2 ! a ! b +
       int (pair_count (map (\<lambda>s. process_id (io ! s)) (t # rest)) a b) +
       int (pair_count (map (\<lambda>s. process_id (io ! s)) (t # rest)) b a)"
    using "3.IH"(2) [OF b2(2) tl prems(3) s2] by blast
  have "adj_walk io (s # t # rest) M = Some M'"
    using M'(1) st b1(1) b2(1) by (simp add: rd_Some)
  moreover have "M' ! a ! b = M ! a ! b +
       int (pair_count (map (\<lambda>s. process_id (io ! s)) (s # t # rest)) a b) +
       int (pair_count (map (\<lambda>s. process_id (io ! s)) (s # t # rest)) b a)" if "a < n" "b < n" for a b
  proof -
    have swap: "(x = a \<and> y = b) = (a = x \<and> b = y)"
      and swap2: "(x = b \<and> y = a) = (a = y \<and> b = x)" for x y :: nat by blast+
    have "M' ! a ! b = M2 ! a ! b +
       int (pair_count (map (\<lambda>s. process_id (io ! s)) (t # rest)) a b) +
       int (pair_count (map (\<lambda>s. process_id (io ! s)) (t # rest)) b a)"
      using M'(3) that by blast
    then show ?thesis
      unfolding e2 [OF that] e1 [OF that] list.map pair_count.simps(1) swap swap2
      by (simp only: of_nat_add of_nat_simps if_distrib [of int] conj_commute ac_simps cong: if_cong)
  qed
  ultimately show ?case using M'(2) by blast
qed (auto simp: square_def)

lemma square_zero [simp]: "square n (zero_matrix n)"
  by (auto simp: square_def zero_matrix_def)

lemma zero_matrix_nth: "a < n \<Longrightarrow> b < n \<Longrightarrow> zero_matrix n ! a ! b = 0"
  by (simp add: zero_matrix_def)

definition neighbours :: "offlen list \<Rightarrow> nat list \<Rightarrow> nat \<Rightarrow> nat \<Rightarrow> nat" where
  "neighbours io ss a b =
     pair_count (map (\<lambda>s. process_id (io ! s)) ss) a b + pair_count (map (\<lambda>s. process_id (io ! s)) ss) b a"

context offset_sorter
begin

lemma adjacency_total:
  assumes "io \<noteq> []" "length io < 2 ^ 29" "\<forall>e \<in> set io. process_id e < n"
  shows "\<exists>ss M. sort_offlen io = Some ss \<and> length ss = length io \<and>
    adjacency io ss (int (length io) - 1) 0 (zero_matrix n) = Some M \<and> square n M \<and>
    sorted (map (\<lambda>t. offset (io ! t)) ss) \<and> (\<forall>a < n. \<forall>b < n. M ! a ! b = int (neighbours io ss a b))"
proof -
  have small: "length io < 2 ^ 30" using assms(2) by simp
  obtain ss where ss: "sort_offlen io = Some ss" using sort_total [OF assms(1) small] by blast
  have len: "length ss = length io" by (rule sort_length [OF assms(1) small ss])
  then have "2 * int (length ss) < 2 ^ 31" using assms(2) by simp
  moreover have "\<forall>s \<in> set ss. s < length io" using sort_index [OF assms(1) small ss] by blast
  moreover have "adjacency io ss (int (length io) - 1) 0 (zero_matrix n) = adj_walk io ss (zero_matrix n)"
    using adjacency_walk [of 0 ss io] len assms(1) by simp
  ultimately show ?thesis
    using adj_walk_correct [of n "zero_matrix n" ss io] assms(3) ss len
      sort_ordered [OF assms(1) small ss]
    by (auto simp: zero_matrix_nth neighbours_def)
qed

end

section \<open>The compressed form determines the matrix\<close>

fun nz_row :: "int list \<Rightarrow> nat \<Rightarrow> (nat \<times> int) list" where
  "nz_row [] j = []"
| "nz_row (x # xs) j = (if x > 0 then [(j, x)] else []) @ nz_row xs (Suc j)"

definition decode_row :: "nat \<Rightarrow> nat list \<Rightarrow> int list \<Rightarrow> int list" where
  "decode_row n cols vs =
     map (\<lambda>j. case map_of (zip cols vs) j of None \<Rightarrow> 0 | Some v \<Rightarrow> v) [0..<n]"

text \<open>A reader of the format: each row takes the difference of two consecutive row indices.\<close>

fun decode_rows :: "nat \<Rightarrow> nat list \<Rightarrow> nat list \<Rightarrow> int list \<Rightarrow> matrix" where
  "decode_rows n (r0 # r1 # rs) cols vs =
     decode_row n (take (r1 - r0) cols) (take (r1 - r0) vs) #
     decode_rows n (r1 # rs) (drop (r1 - r0) cols) (drop (r1 - r0) vs)"
| "decode_rows n _ cols vs = []"

definition crs_decode :: "nat \<Rightarrow> crs \<Rightarrow> matrix" where
  "crs_decode n c = decode_rows n (crs_rows c) (crs_columns c) (crs_values c)"

lemma length_nz_row: "length (nz_row xs j) = length (filter (\<lambda>x. x > 0) xs)"
  by (induction xs arbitrary: j) auto

lemma map_of_nz_row:
  "map_of (nz_row xs j) k =
     (if j \<le> k \<and> k < j + length xs \<and> xs ! (k - j) > 0 then Some (xs ! (k - j)) else None)"
proof (induction xs arbitrary: j)
  case (Cons x xs)
  show ?case
  proof (cases "k = j")
    case True
    then show ?thesis using Cons.IH [of "Suc j"] by (simp add: map_add_def)
  next
    case False
    then have "map_of (nz_row (x # xs) j) k = map_of (nz_row xs (Suc j)) k"
      by (simp add: map_add_def split: option.split)
    moreover have "k - j = Suc (k - Suc j)" if "j \<le> k" using that False by simp
    ultimately show ?thesis using Cons.IH [of "Suc j"] False by auto
  qed
qed simp

lemma decode_nz_row:
  assumes "length row = n" "\<forall>x \<in> set row. 0 \<le> x"
  shows "decode_row n (map fst (nz_row row 0)) (map snd (nz_row row 0)) = row"
proof (rule nth_equalityI)
  fix k assume "k < length (decode_row n (map fst (nz_row row 0)) (map snd (nz_row row 0)))"
  then have k: "k < n" by (simp add: decode_row_def)
  then have "0 \<le> row ! k" using assms by simp
  then show "decode_row n (map fst (nz_row row 0)) (map snd (nz_row row 0)) ! k = row ! k"
    using k assms(1) by (auto simp: decode_row_def zip_map_fst_snd map_of_nz_row)
qed (simp add: decode_row_def assms(1))

lemma crs_row_eq:
  "length vs + length (nz_row xs j) \<le> m \<Longrightarrow> crs_row m xs j (vs, cols, r) =
     Some (vs @ map snd (nz_row xs j), cols @ map fst (nz_row xs j), r + length (nz_row xs j))"
  by (induction xs arbitrary: j vs cols r) auto

fun row_indices :: "nat \<Rightarrow> matrix \<Rightarrow> nat list" where
  "row_indices r [] = []"
| "row_indices r (row # rows) =
     (r + length (nz_row row 0)) # row_indices (r + length (nz_row row 0)) rows"

definition nz_all :: "matrix \<Rightarrow> (nat \<times> int) list" where
  "nz_all M = concat (map (\<lambda>r. nz_row r 0) M)"

lemma crs_build_eq:
  assumes "length vs + length (nz_all M) \<le> m"
  shows "crs_build m M (vs, cols, r) ri =
    Some \<lparr>crs_values = vs @ map snd (nz_all M), crs_columns = cols @ map fst (nz_all M),
          crs_rows = ri @ row_indices r M\<rparr>"
  using assms by (induction M arbitrary: vs cols r ri) (auto simp: nz_all_def crs_row_eq)

lemma length_nz_all: "length (nz_all M) = count_positive M"
  by (induction M) (simp_all add: nz_all_def count_positive_def length_nz_row)

lemma decode_rows_eq:
  assumes "\<forall>row \<in> set M. length row = n \<and> (\<forall>x \<in> set row. 0 \<le> x)"
  shows "decode_rows n (r # row_indices r M) (map fst (nz_all M)) (map snd (nz_all M)) = M"
  using assms by (induction M arbitrary: r) (auto simp: nz_all_def decode_nz_row)

lemma compress_eq:
  "compress M = Some \<lparr>crs_values = map snd (nz_all M), crs_columns = map fst (nz_all M),
     crs_rows = 1 # row_indices 1 M\<rparr>"
  unfolding compress_def by (subst crs_build_eq) (simp_all add: length_nz_all)

lemma compress_roundtrip:
  assumes "square n M" and "\<forall>row \<in> set M. \<forall>x \<in> set row. 0 \<le> x"
  shows "\<exists>c. compress M = Some c \<and> crs_decode n c = M \<and>
    length (crs_values c) = count_positive M \<and> length (crs_columns c) = count_positive M"
  using assms decode_rows_eq [of M n 1]
  by (auto simp: compress_eq crs_decode_def square_def length_nz_all)

section \<open>Heap discipline of the report\<close>

definition block_perm :: "nat \<Rightarrow> blk list \<Rightarrow> bool" where
  "block_perm n live \<longleftrightarrow> mset live =
     mset ([BAdjMatrix, BSorted, BAllProcess, BPerProcess, BDispls, BRecvcounts] @ adj_rows n)"

lemma free_all_perm:
  "mset bs = mset live \<Longrightarrow> free_all bs live = Some []"
proof (induction bs arbitrary: live)
  case (Cons b bs)
  then have "b \<in> set live" by (metis list.set_intros(1) mset_eq_setD)
  moreover have "mset bs = mset (remove1 b live)" using Cons.prems by (metis add_mset_remove_trivial mset.simps(2) mset_remove1)
  ultimately show ?case using Cons.IH by simp
qed simp

lemma alloc_rows_cases:
  assumes "mset live = mset (adj_rows i @ [BAdjMatrix, BSorted, BAllProcess, BPerProcess, BRecvcounts, BDispls])"
  shows "if \<forall>r \<in> {i..<i + k}. alloc_ok env (BAdjRow r)
    then \<exists>live'. alloc_rows env i k live = Some (Inr live') \<and> block_perm (i + k) live'
    else alloc_rows env i k live = Some (Inl (OMPI_ERR_OUT_OF_RESOURCE, [], None))"
  using assms
proof (induction k arbitrary: i live)
  case 0
  then show ?case by (simp add: block_perm_def add.commute add_mset_commute)
next
  case (Suc k)
  have "mset (BAdjRow i # live) =
      mset (adj_rows (Suc i) @ [BAdjMatrix, BSorted, BAllProcess, BPerProcess, BRecvcounts, BDispls])"
    using Suc.prems by simp
  moreover have "{i..<i + Suc k} = insert i {Suc i..<Suc i + k}" by auto
  ultimately show ?case
    using Suc.IH [of "BAdjRow i # live" "Suc i"] free_all_perm [OF Suc.prems [symmetric]]
    by (simp add: fail_with_def split: if_splits)
qed

text \<open>The blocks allocated before the collectives, and those allocated once the file is open.\<close>

definition early_blocks :: "nat \<Rightarrow> blk list" where
  "early_blocks n = [BRecvcounts, BDispls, BPerProcess, BAllProcess, BSorted, BAdjMatrix] @ adj_rows n"

definition late_blocks :: "blk list" where
  "late_blocks = [BColumnList, BValues, BRowIndex]"

lemma root_alloc_cases:
  "if list_all (alloc_ok env) ([BAllProcess, BSorted, BAdjMatrix] @ adj_rows n)
   then \<exists>live'. root_alloc env n [BPerProcess, BDispls, BRecvcounts] = Some (Inr live') \<and> block_perm n live'
   else root_alloc env n [BPerProcess, BDispls, BRecvcounts] = Some (Inl (OMPI_ERR_OUT_OF_RESOURCE, [], None))"
proof -
  let ?live = "[BAdjMatrix, BSorted, BAllProcess, BPerProcess, BDispls, BRecvcounts]"
  have "mset ?live = mset (adj_rows 0 @ [BAdjMatrix, BSorted, BAllProcess, BPerProcess, BRecvcounts, BDispls])"
    by simp
  from alloc_rows_cases [OF this, of n env] show ?thesis
    by (auto simp: root_alloc_def fail_with_def list_all_iff split: if_splits)
qed

text \<open>What the root reports when it gets as far as writing the file.\<close>

definition report_ok :: "(offlen list \<Rightarrow> nat list option) \<Rightarrow> nat \<Rightarrow> offlen list \<Rightarrow> string \<Rightarrow> bool" where
  "report_ok sort_fn n io out \<longleftrightarrow>
     (\<exists>ss c. sort_fn io = Some ss \<and> sorted (map (\<lambda>t. offset (io ! t)) ss) \<and> out = crs_text n c \<and>
        square n (crs_decode n c) \<and>
        (\<forall>a < n. \<forall>b < n. crs_decode n c ! a ! b = int (neighbours io ss a b)))"

text \<open>The sort as the root calls it: with the number of records the block holds.\<close>

abbreviation sort_of :: "report_env \<Rightarrow> offlen list \<Rightarrow> nat list option" where
  "sort_of env io \<equiv> ompio_sort env io (int (length io))"

lemma root_report_cases:
  assumes sort: "offset_sorter (sort_of env)" and io: "io \<noteq> []" "length io < 2 ^ 29"
    "\<forall>e \<in> set io. process_id e < n" and live: "block_perm n live"
  shows "\<exists>t. report_ok (sort_of env) n io t \<and>
    root_report env n (int (length io)) io live =
      Some (if \<not> fopen_ok env then (MPI_ERR_OTHER, [], None)
            else if \<not> list_all (alloc_ok env) late_blocks
              then (OMPI_ERR_OUT_OF_RESOURCE, [], Some report_header)
            else (OMPI_SUCCESS, [], Some t))"
proof -
  obtain ss M where ss: "sort_of env io = Some ss" "length ss = length io"
    "adjacency io ss (int (length io) - 1) 0 (zero_matrix n) = Some M"
    "square n M" "sorted (map (\<lambda>t. offset (io ! t)) ss)"
    "\<forall>a < n. \<forall>b < n. M ! a ! b = int (neighbours io ss a b)"
    using offset_sorter.adjacency_total [OF sort io] by blast
  have "0 \<le> x" if "row \<in> set M" "x \<in> set row" for row x
    using that ss(4,6) by (fastforce simp: in_set_conv_nth square_def)
  then obtain c where c: "compress M = Some c" "crs_decode n c = M"
    using compress_roundtrip [OF ss(4)] by blast
  have perm: "mset live = mset ([BAdjMatrix, BSorted, BAllProcess, BPerProcess, BDispls, BRecvcounts] @ adj_rows n)"
    using live by (simp add: block_perm_def)
  have lim: "i32 (int (length io) - 1) = Some (int (length io) - 1)"
    using io(2) by (intro i32_Some) simp_all
  have "report_ok (sort_of env) n io (crs_text n c)"
    unfolding report_ok_def using ss c by blast
  then show ?thesis
    using ss(1-3) c(1)
    by (intro exI [of _ "crs_text n c"])
      (simp add: root_report_def fail_with_def Let_def free_all_perm perm add_mset_commute fills_def
        lim late_blocks_def del: free_all.simps)
qed

lemma record_offsets_root_spec:
  assumes sort: "offset_sorter (sort_of env)"
    and counts: "gathered_counts env (length iov) = recvcounts" "length recvcounts = n"
    and displs: "compute_displs recvcounts = Some (displs, int (length io))"
    and io: "gathered_entries env (per_process_of 0 iov) displs = io" "io \<noteq> []" "length io < 2 ^ 29"
    "\<forall>e \<in> set io. process_id e < n"
  shows "\<exists>t. report_ok (sort_of env) n io t \<and>
    record_offsets env n 0 iov =
      Some (if \<not> list_all (alloc_ok env) (early_blocks n) then (OMPI_ERR_OUT_OF_RESOURCE, [], None)
            else if \<not> fopen_ok env then (MPI_ERR_OTHER, [], None)
            else if \<not> list_all (alloc_ok env) late_blocks
              then (OMPI_ERR_OUT_OF_RESOURCE, [], Some report_header)
            else (OMPI_SUCCESS, [], Some t))"
proof -
  note alloc = root_alloc_cases [of env n]
  show ?thesis
  proof (cases "list_all (alloc_ok env) ([BAllProcess, BSorted, BAdjMatrix] @ adj_rows n)")
    case True
    then obtain live where l: "root_alloc env n [BPerProcess, BDispls, BRecvcounts] = Some (Inr live)"
      "block_perm n live" using alloc by auto
    then show ?thesis
      using True root_report_cases [OF sort io(2-4) l(2)] io(1)
      by (auto simp: record_offsets_def fail_with_def counts displs fills_def early_blocks_def)
  next
    case False
    then have "root_alloc env n [BPerProcess, BDispls, BRecvcounts] =
        Some (Inl (OMPI_ERR_OUT_OF_RESOURCE, [], None))" using alloc by simp
    moreover obtain t where "report_ok (sort_of env) n io t"
      using offset_sorter.adjacency_total [OF sort io(2-4)] root_report_cases [OF sort io(2-4)]
      by (metis block_perm_def)
    ultimately show ?thesis
      using False by (auto simp: record_offsets_def fail_with_def counts displs fills_def early_blocks_def)
  qed
qed

lemma offset_sorter_sort_indices: "offset_sorter sort_indices"
  by (rule heap_sorter.offset_sorter_axioms)

section \<open>Properties\<close>

text \<open>C11: at the root, when the collectives deliver one count per process and as many records as
  the counts add up to, the report is defined, frees every block it allocated exactly once on every
  path, and ends in exactly one of four ways: \<open>OMPI_ERR_OUT_OF_RESOURCE\<close> with the file untouched
  when a block fails that is allocated before the gathering, \<open>MPI_ERR_OTHER\<close> with the file untouched
  when it cannot be opened, \<open>OMPI_ERR_OUT_OF_RESOURCE\<close> with the file truncated to its first line
  when one of the last three blocks fails, and otherwise \<open>OMPI_SUCCESS\<close> with the compressed
  form of the matrix whose entry \<open>(a, b)\<close> counts the neighbouring extents of processes \<open>a\<close>
  and \<open>b\<close> in file order.\<close>

theorem record_offsets_root:
  assumes "offset_sorter (sort_of env)"
    and "gathered_counts env (length iov) = recvcounts" "length recvcounts = n"
    and "compute_displs recvcounts = Some (displs, int (length io))"
    and "gathered_entries env (per_process_of 0 iov) displs = io" "io \<noteq> []" "length io < 2 ^ 29"
    and "\<forall>e \<in> set io. process_id e < n"
  shows "\<exists>t. report_ok (sort_of env) n io t \<and>
    record_offsets env n 0 iov =
      Some (if \<not> list_all (alloc_ok env) (early_blocks n) then (OMPI_ERR_OUT_OF_RESOURCE, [], None)
            else if \<not> fopen_ok env then (MPI_ERR_OTHER, [], None)
            else if \<not> list_all (alloc_ok env) late_blocks
              then (OMPI_ERR_OUT_OF_RESOURCE, [], Some report_header)
            else (OMPI_SUCCESS, [], Some t))"
  by (rule record_offsets_root_spec [OF assms])

text \<open>Two processes; the second contributes the extents at 0 and 12, the root the one it has.\<close>

definition example_env :: "(blk \<Rightarrow> bool) \<Rightarrow> report_env" where
  "example_env ok =
     \<lparr>alloc_ok = ok, fopen_ok = True, gathered_counts = (\<lambda>k. [int k, 2]),
      gathered_entries = (\<lambda>own displs. own @
        [\<lparr>offset = 0, length_of = 4, process_id = 1\<rparr>, \<lparr>offset = 12, length_of = 4, process_id = 1\<rparr>]),
      ompio_sort = (\<lambda>io n. sort_indices io)\<rparr>"

theorem record_offsets_root_witness:
  "(\<exists>t. report_ok sort_indices 2
      [\<lparr>offset = 8, length_of = 4, process_id = 0\<rparr>,
       \<lparr>offset = 0, length_of = 4, process_id = 1\<rparr>, \<lparr>offset = 12, length_of = 4, process_id = 1\<rparr>] t \<and>
     record_offsets (example_env (\<lambda>_. True)) 2 0 [\<lparr>iov_base = 8, iov_len = 4\<rparr>] =
       Some (OMPI_SUCCESS, [], Some t)) \<and>
   record_offsets (example_env (\<lambda>b. b \<noteq> BValues)) 2 0 [\<lparr>iov_base = 8, iov_len = 4\<rparr>] =
     Some (OMPI_ERR_OUT_OF_RESOURCE, [], Some report_header) \<and>
   record_offsets (example_env (\<lambda>b. b \<noteq> BAdjRow 1)) 2 0 [\<lparr>iov_base = 8, iov_len = 4\<rparr>] =
     Some (OMPI_ERR_OUT_OF_RESOURCE, [], None)"
proof -
  let ?iov = "[\<lparr>iov_base = 8, iov_len = 4\<rparr>] :: iovec list"
  let ?io = "[\<lparr>offset = 8, length_of = 4, process_id = 0\<rparr>,
       \<lparr>offset = 0, length_of = 4, process_id = 1\<rparr>, \<lparr>offset = 12, length_of = 4, process_id = 1\<rparr>]"
  have own: "per_process_of 0 ?iov = [\<lparr>offset = 8, length_of = 4, process_id = 0\<rparr>]"
    by (simp add: per_process_of_def)
  have displs: "compute_displs [1, 2] = Some ([0, 1], int (length ?io))"
    by (simp add: compute_displs_def rd_def i32_def)
  have rows: "adj_rows 2 = [BAdjRow 0, BAdjRow 1]" by (simp add: upt_rec)
  have main: "\<exists>t. report_ok sort_indices 2 ?io t \<and> record_offsets (example_env ok) 2 0 ?iov =
      Some (if \<not> list_all ok (early_blocks 2) then (OMPI_ERR_OUT_OF_RESOURCE, [], None)
            else if \<not> list_all ok late_blocks then (OMPI_ERR_OUT_OF_RESOURCE, [], Some report_header)
            else (OMPI_SUCCESS, [], Some t))" for ok
  proof -
    have env: "alloc_ok (example_env ok) = ok" "fopen_ok (example_env ok) = True"
      "sort_of (example_env ok) = sort_indices"
      "gathered_counts (example_env ok) (length ?iov) = [1, 2]"
      "gathered_entries (example_env ok) (per_process_of 0 ?iov) [0, 1] = ?io"
      unfolding own by (simp_all add: example_env_def)
    show ?thesis
      by (rule record_offsets_root [of "example_env ok" ?iov "[1, 2]" 2 "[0, 1]" ?io,
          unfolded env(1-3) not_True_eq_False if_False,
          OF offset_sorter_sort_indices env(4) _ displs env(5)]) simp_all
  qed
  show ?thesis
    using main [of "\<lambda>_. True"] main [of "\<lambda>b. b \<noteq> BValues"] main [of "\<lambda>b. b \<noteq> BAdjRow 1"]
    by (simp add: early_blocks_def late_blocks_def rows)
qed

text \<open>Every process but the root keeps three blocks allocated after a successful report;
  the frees are inside the branch of the root.\<close>

theorem record_offsets_nonroot_leak:
  assumes "f_rank \<noteq> 0" and "\<And>b. alloc_ok env b"
  shows "record_offsets env n f_rank iov = Some (OMPI_SUCCESS, [BPerProcess, BDispls, BRecvcounts], None)"
  using assms by (simp add: record_offsets_def)

theorem record_offsets_nonroot_leak_witness:
  "record_offsets (example_env (\<lambda>_. True)) 2 1 [] =
     Some (OMPI_SUCCESS, [BPerProcess, BDispls, BRecvcounts], None)"
  by (rule record_offsets_nonroot_leak) (simp_all add: example_env_def)

text \<open>C23: the compressed row storage loses nothing: a reader of the row indices, columns and
  values recovers every non-negative square matrix, and exactly the positive entries
  are stored.\<close>

theorem compress_decode:
  assumes "square n M" and "\<forall>row \<in> set M. \<forall>x \<in> set row. 0 \<le> x"
  shows "\<exists>c. compress M = Some c \<and> crs_decode n c = M \<and>
    length (crs_values c) = count_positive M \<and> length (crs_columns c) = count_positive M"
  by (rule compress_roundtrip [OF assms])

theorem compress_decode_witness:
  "\<exists>c. compress [[0, 2], [2, 0]] = Some c \<and> crs_decode 2 c = [[0, 2], [2, 0]]"
  using compress_decode [of 2 "[[0, 2], [2, 0]]"] by (auto simp: square_def)

end
