(* ===== verification/BBV_Names.thy ===== *)
theory BBV_Names
  imports BBV_Text
begin

text \<open>
  The name of the node-local buffer file, which \<open>mca_io_bbview_file_set_view\<close> and
  \<open>mca_io_bbview_file_flush\<close> both compute (\<open>io_bbview_file_set_view.c\<close> lines 441--446,
  \<open>io_bbview_file_flush.c\<close> lines 117--122): one file per destination file, rank
  and view number. \<open>tmp_dir\<close> is the configured \<open>BBVIEW_TMP_DIR\<close>.
\<close>

definition PATH_MAX :: nat where
  "PATH_MAX = 4096"

text \<open>The loop that replaces the slashes from index \<open>k\<close> on.\<close>

definition dash_from :: "nat \<Rightarrow> string \<Rightarrow> string" where
  "dash_from k s = take k s @ map (\<lambda>c. if c = CHR ''/'' then CHR ''-'' else c) (drop k s)"

definition local_filename :: "string \<Rightarrow> string \<Rightarrow> nat \<Rightarrow> 64 word \<Rightarrow> string" where
  "local_filename tmp_dir f_filename comm_rank view_index =
     dash_from (length tmp_dir + 2)
       (fit PATH_MAX (tmp_dir @ ''/'' @ f_filename @ ''-'' @ show_nat comm_rank @ ''-'' @
          show_int (sint view_index)))"

lemma length_dash_from [simp]: "length (dash_from k s) = length s"
  by (simp add: dash_from_def)

lemma dash_from_no_slash: "CHR ''/'' \<notin> set (drop k (dash_from k s))"
  by (cases "k \<le> length s") (auto simp: dash_from_def dest: in_set_dropD)

lemma local_filename_length: "length (local_filename t f r v) < PATH_MAX"
  by (simp add: local_filename_def length_fit PATH_MAX_def)

text \<open>Digits and dashes are not affected by the replacement.\<close>

lemma dash_from_append:
  "k \<le> length a \<Longrightarrow> CHR ''/'' \<notin> set b \<Longrightarrow> dash_from k (a @ b) = dash_from k a @ b"
  by (auto simp: dash_from_def intro!: map_idI)

lemma show_int_no_slash: "CHR ''/'' \<notin> set (show_int i)"
  using show_nat_no_char [of "CHR ''/''"] by (simp add: show_int_def)

lemma show_int_inject [simp]: "show_int a = show_int b \<longleftrightarrow> a = b"
proof -
  have "CHR ''-'' \<notin> set (show_nat n)" for n by (rule show_nat_no_char) simp
  then have "CHR ''-'' # xs \<noteq> show_nat n" "show_nat n \<noteq> CHR ''-'' # xs" for n xs by (metis list.set_intros(1))+
  then show ?thesis by (auto simp: show_int_def)
qed

lemma local_filename_eq:
  assumes "f \<noteq> []"
    and "length t + length f + length (show_nat r) + length (show_int (sint v)) + 3 < PATH_MAX"
  shows "local_filename t f r v =
    dash_from (length t + 2) (t @ ''/'' @ f) @ ''-'' @ show_nat r @ ''-'' @ show_int (sint v)"
proof -
  let ?suffix = "''-'' @ show_nat r @ ''-'' @ show_int (sint v)"
  have "CHR ''/'' \<notin> set ?suffix"
    using show_nat_no_char [of "CHR ''/''"] show_int_no_slash by simp
  moreover have "length t + 2 \<le> length (t @ ''/'' @ f)" using assms(1) by (cases f) simp_all
  ultimately have "dash_from (length t + 2) ((t @ ''/'' @ f) @ ?suffix) =
      dash_from (length t + 2) (t @ ''/'' @ f) @ ?suffix" by (rule dash_from_append [rotated])
  then show ?thesis using assms(2) by (simp add: local_filename_def fit_id)
qed

lemma dash_split:
  assumes "CHR ''-'' \<notin> set a" "CHR ''-'' \<notin> set b" "a @ CHR ''-'' # x = b @ CHR ''-'' # y"
  shows "a = b \<and> x = y"
proof -
  have "takeWhile (\<lambda>c. c \<noteq> CHR ''-'') (a @ CHR ''-'' # x) = a"
    "takeWhile (\<lambda>c. c \<noteq> CHR ''-'') (b @ CHR ''-'' # y) = b"
    using assms(1,2) by (auto simp: takeWhile_append takeWhile_eq_all_conv)
  with assms(3) show ?thesis by simp
qed

lemma suffix_inject:
  "show_nat r @ ''-'' @ show_int a = show_nat r' @ ''-'' @ show_int b \<longleftrightarrow> r = r' \<and> a = b"
proof
  assume h: "show_nat r @ ''-'' @ show_int a = show_nat r' @ ''-'' @ show_int b"
  have "CHR ''-'' \<notin> set (show_nat n)" for n by (rule show_nat_no_char) simp
  from dash_split [OF this this, of r "show_int a" r' "show_int b"] h show "r = r' \<and> a = b" by simp
qed simp

text \<open>The length that a name may reach before \<open>snprintf\<close> cuts it.\<close>

definition name_fits :: "string \<Rightarrow> string \<Rightarrow> nat \<Rightarrow> 64 word \<Rightarrow> bool" where
  "name_fits t f r v \<longleftrightarrow> f \<noteq> [] \<and>
     length t + length f + length (show_nat r) + length (show_int (sint v)) + 3 < PATH_MAX"

lemma local_filename_head: "\<exists>n. local_filename (CHR ''/'' # t) f r v = CHR ''/'' # n"
  by (simp add: local_filename_def fit_def PATH_MAX_def dash_from_def)

section \<open>Properties\<close>

text \<open>C24: the buffer files of two ranks, or of two views of one rank, never share a name: for
  one destination file the name determines the rank and the view number, as long as it is
  not truncated.\<close>

theorem local_filename_inject:
  assumes "name_fits t f r v" and "name_fits t f r' v'"
    and "local_filename t f r v = local_filename t f r' v'"
  shows "r = r' \<and> v = v'"
proof -
  have "show_nat r @ ''-'' @ show_int (sint v) = show_nat r' @ ''-'' @ show_int (sint v')"
    using assms by (simp add: name_fits_def local_filename_eq)
  then have "r = r'" "sint v = sint v'" unfolding suffix_inject by simp_all
  then show ?thesis by (metis signed_word_eqI)
qed

theorem local_filename_inject_witness:
  "name_fits ''/scr'' ''ckpt'' 0 1 \<and> name_fits ''/scr'' ''ckpt'' 1 1 \<and> name_fits ''/scr'' ''ckpt'' 0 (- 2) \<and>
   local_filename ''/scr'' ''ckpt'' 0 1 \<noteq> local_filename ''/scr'' ''ckpt'' 1 1 \<and>
   local_filename ''/scr'' ''ckpt'' 0 1 \<noteq> local_filename ''/scr'' ''ckpt'' 0 (- 2)"
proof -
  have "show_nat 0 = ''0''" "show_nat 1 = ''1''" "show_int 1 = ''1''" "show_int (- 2) = ''-2''" by code_simp+
  then have fits: "name_fits ''/scr'' ''ckpt'' 0 1" "name_fits ''/scr'' ''ckpt'' 1 1" "name_fits ''/scr'' ''ckpt'' 0 (- 2)"
    by (simp_all add: name_fits_def PATH_MAX_def)
  have "(1 :: 64 word) \<noteq> - 2" by simp
  then show ?thesis
    using local_filename_inject [OF fits(1,2)] local_filename_inject [OF fits(1,3)] fits by auto
qed

text \<open>C39: the name has no slash after the first character of the destination name, so the
  buffer file lies directly in \<open>BBVIEW_TMP_DIR\<close>, and it always fits the name buffer.\<close>

theorem local_filename_flat:
  "CHR ''/'' \<notin> set (drop (length t + 2) (local_filename t f r v)) \<and>
   length (local_filename t f r v) < PATH_MAX"
  by (simp add: local_filename_length) (simp add: local_filename_def dash_from_no_slash)

text \<open>C40: two different destination files can get the same buffer file: a slash and a dash in
  the destination name are not told apart.\<close>

theorem local_filename_collision:
  "local_filename ''/tmp'' ''run1/out'' r v = local_filename ''/tmp'' ''run1-out'' r v"
proof -
  have cut: "dash_from 6 (fit PATH_MAX (''/tmp/r'' @ x)) =
      ''/tmp/r'' @ take 4089 (map (\<lambda>c. if c = CHR ''/'' then CHR ''-'' else c) x)" for x
    by (simp add: dash_from_def fit_def PATH_MAX_def take_map)
  have k: "length ''/tmp'' + 2 = 6" by simp
  show ?thesis
    unfolding local_filename_def k
    using cut [of "''un1/out-'' @ show_nat r @ ''-'' @ show_int (sint v)"]
      cut [of "''un1-out-'' @ show_nat r @ ''-'' @ show_int (sint v)"] by simp
qed

end
