(* ===== verification/BBV_Xattr.thy ===== *)
theory BBV_Xattr
  imports BBV_Names
begin

text \<open>
  The view description that travels with a buffer file in its extended attributes: the
  writer \<open>set_xattrs_for_bbview\<close> (\<open>io_bbview_file_flush.c\<close>) and the reader at the
  start of \<open>execute\<close> (\<open>bbviewd.c\<close>, lines 128--153). The packed data type is cut into
  attributes of at most \<open>MAX_XATTR_VALUE_SIZE\<close> bytes. The file system's attributes are a map;
  whether a \<open>setxattr\<close> call succeeds (size limits, space) is a parameter.
\<close>

section \<open>Local files and their attributes\<close>

record lfile =
  content :: string
  attrs :: "string \<Rightarrow> string option"

type_synonym fs = "string \<Rightarrow> lfile option"

text \<open>\<open>None\<close> is the negative return; a failed call changes nothing.\<close>

definition setxattr ::
  "(string \<Rightarrow> string \<Rightarrow> string \<Rightarrow> bool) \<Rightarrow> string \<Rightarrow> fs \<Rightarrow> string \<Rightarrow> string \<Rightarrow> fs option" where
  "setxattr accepts path m name v =
     (case m path of
        None \<Rightarrow> None
      | Some f \<Rightarrow> if accepts path name v then Some (m(path \<mapsto> f\<lparr>attrs := (attrs f)(name \<mapsto> v)\<rparr>)) else None)"

definition attr_of :: "string \<Rightarrow> fs \<Rightarrow> string \<Rightarrow> string option" where
  "attr_of path m name = (case m path of None \<Rightarrow> None | Some f \<Rightarrow> attrs f name)"

text \<open>\<open>getxattr (..., size)\<close> fails when the attribute is missing or longer than the buffer.\<close>

definition getxattr :: "(string \<Rightarrow> string option) \<Rightarrow> string \<Rightarrow> nat \<Rightarrow> string option" where
  "getxattr get name sz =
     (case get name of None \<Rightarrow> None | Some v \<Rightarrow> if length v \<le> sz then Some v else None)"

section \<open>Attribute names and the displacement\<close>

definition BBVIEW_ATTR_DEST_PATH :: string where "BBVIEW_ATTR_DEST_PATH = ''user.bbview.dest_path''"
definition BBVIEW_ATTR_ETYPE :: string where "BBVIEW_ATTR_ETYPE = ''user.bbview.etype''"
definition BBVIEW_ATTR_DATATYPE :: string where "BBVIEW_ATTR_DATATYPE = ''user.bbview.datatype''"
definition BBVIEW_ATTR_DISP :: string where "BBVIEW_ATTR_DISP = ''user.bbview.disp''"
definition MAX_XATTR_VALUE_SIZE :: nat where "MAX_XATTR_VALUE_SIZE = 65536"
definition TARGET_BUFFER_SIZE :: nat where "TARGET_BUFFER_SIZE = 4 * 1024 * 1024"

lemmas attr_names = BBVIEW_ATTR_DEST_PATH_def BBVIEW_ATTR_ETYPE_def BBVIEW_ATTR_DATATYPE_def
  BBVIEW_ATTR_DISP_def

definition chunk_name :: "nat \<Rightarrow> string" where
  "chunk_name index = fit 256 (BBVIEW_ATTR_DATATYPE @ show_nat index)"

text \<open>The eight bytes of an \<open>OMPI_MPI_OFFSET_TYPE\<close> in memory, least significant first.\<close>

fun le_bytes :: "nat \<Rightarrow> nat \<Rightarrow> string" where
  "le_bytes 0 n = []"
| "le_bytes (Suc k) n = char_of (n mod 256) # le_bytes k (n div 256)"

fun le_value :: "string \<Rightarrow> nat" where
  "le_value [] = 0"
| "le_value (c # cs) = of_char c + 256 * le_value cs"

definition disp_bytes :: "64 word \<Rightarrow> string" where
  "disp_bytes d = le_bytes 8 (unat d)"

definition disp_of_bytes :: "string \<Rightarrow> 64 word" where
  "disp_of_bytes bs = of_nat (le_value bs)"

section \<open>The writer\<close>

text \<open>
  The fields of \<open>mca_common_bbview_data_t\<close> that the writer reads: the buffers with \<open>None\<close> for
  the null pointer, and the recorded lengths.
\<close>

record saved_view =
  sv_disp :: "64 word"
  sv_dt_buf :: "string option"
  sv_dt_len :: nat
  sv_et_buf :: "string option"
  sv_et_len :: nat

text \<open>The bytes that \<open>setxattr\<close> reads from \<open>buf + offset\<close>: undefined when they leave the buffer.\<close>

definition user_bytes :: "string option \<Rightarrow> nat \<Rightarrow> nat \<Rightarrow> string option" where
  "user_bytes buf offset n =
     (if n = 0 then Some []
      else case buf of
        None \<Rightarrow> None
      | Some b \<Rightarrow> if offset + n \<le> length b then Some (take n (drop offset b)) else None)"

text \<open>
  Lines 69--86. The first component says whether the loop got to its end; the attributes set
  before a failure stay.
\<close>

function write_chunks ::
  "('m \<Rightarrow> string \<Rightarrow> string \<Rightarrow> 'm option) \<Rightarrow> 'm \<Rightarrow> string option \<Rightarrow> nat \<Rightarrow> nat \<Rightarrow> nat \<Rightarrow> (bool \<times> 'm) option" where
  "write_chunks setx m dt_buf dt_len offset index =
     (if offset < dt_len then
        (let chunk_size = min (dt_len - offset) MAX_XATTR_VALUE_SIZE in
         case user_bytes dt_buf offset chunk_size of
           None \<Rightarrow> None
         | Some v \<Rightarrow>
             (case setx m (chunk_name index) v of
                None \<Rightarrow> Some (False, m)
              | Some m' \<Rightarrow> write_chunks setx m' dt_buf dt_len (offset + chunk_size) (index + 1)))
      else Some (True, m))"
  by pat_completeness auto
termination
  by (relation "measure (\<lambda>(setx, m, buf, len, offset, index). len - offset)")
     (auto simp: MAX_XATTR_VALUE_SIZE_def)

declare write_chunks.simps [simp del]

text \<open>\<open>realpath\<close> gives the absolute destination name, or fails. The buffers are read last.\<close>

definition set_xattrs_for_bbview ::
  "('m \<Rightarrow> string \<Rightarrow> string \<Rightarrow> 'm option) \<Rightarrow> string option \<Rightarrow> saved_view \<Rightarrow> 'm \<Rightarrow> (bool \<times> 'm) option" where
  "set_xattrs_for_bbview setx realpath data m =
     (case realpath of
        None \<Rightarrow> Some (False, m)
      | Some buf \<Rightarrow>
          (case setx m BBVIEW_ATTR_DEST_PATH buf of
             None \<Rightarrow> Some (False, m)
           | Some m1 \<Rightarrow>
               (case setx m1 BBVIEW_ATTR_DISP (disp_bytes (sv_disp data)) of
                  None \<Rightarrow> Some (False, m1)
                | Some m2 \<Rightarrow> do {
                    (ok, m3) \<leftarrow> write_chunks setx m2 (sv_dt_buf data) (sv_dt_len data) 0 0;
                    (if \<not> ok then Some (False, m3)
                     else do {
                       et \<leftarrow> user_bytes (sv_et_buf data) 0 (sv_et_len data);
                       Some (case setx m3 BBVIEW_ATTR_ETYPE et of
                               None \<Rightarrow> (False, m3)
                             | Some m4 \<Rightarrow> (True, m4)) }) })))"

text \<open>
  The description that a complete saved view holds: the recorded lengths lie within the buffers.
\<close>

record view_desc =
  saved_disp :: "64 word"
  saved_dt_buf :: string
  saved_et_buf :: string

definition saved_desc :: "saved_view \<Rightarrow> view_desc option" where
  "saved_desc data = do {
     dt \<leftarrow> user_bytes (sv_dt_buf data) 0 (sv_dt_len data);
     et \<leftarrow> user_bytes (sv_et_buf data) 0 (sv_et_len data);
     Some \<lparr>saved_disp = sv_disp data, saved_dt_buf = dt, saved_et_buf = et\<rparr> }"

section \<open>The reader\<close>

text \<open>
  Lines 136--149: the attributes are appended to \<open>dt_buf\<close> until one is missing or the buffer's
  size is reached. \<open>Inl ()\<close> is the jump to \<open>err_close\<close>.
\<close>

function read_chunks :: "(string \<Rightarrow> string option) \<Rightarrow> string \<Rightarrow> nat \<Rightarrow> unit + string" where
  "read_chunks get dt_buf index =
     (if index * MAX_XATTR_VALUE_SIZE < TARGET_BUFFER_SIZE then
        (case getxattr get (chunk_name index) MAX_XATTR_VALUE_SIZE of
           None \<Rightarrow> if index = 0 then Inl () else Inr dt_buf
         | Some part_buf \<Rightarrow> read_chunks get (dt_buf @ part_buf) (index + 1))
      else Inr dt_buf)"
  by pat_completeness auto
termination
  by (relation "measure (\<lambda>(get, buf, index). TARGET_BUFFER_SIZE - index * MAX_XATTR_VALUE_SIZE)")
     (auto simp: MAX_XATTR_VALUE_SIZE_def)

declare read_chunks.simps [simp del]

text \<open>
  Lines 128--153: \<open>etype\<close>, data type, displacement, in this order. A displacement attribute
  of fewer than eight bytes would leave \<open>disp\<close> partly unset: \<open>None\<close>.
\<close>

definition load_view :: "(string \<Rightarrow> string option) \<Rightarrow> (unit + view_desc) option" where
  "load_view get =
     (case getxattr get BBVIEW_ATTR_ETYPE MAX_XATTR_VALUE_SIZE of
        None \<Rightarrow> Some (Inl ())
      | Some et_buf \<Rightarrow>
          (case read_chunks get [] 0 of
             Inl e \<Rightarrow> Some (Inl e)
           | Inr dt_buf \<Rightarrow>
               (case getxattr get BBVIEW_ATTR_DISP 8 of
                  None \<Rightarrow> Some (Inl ())
                | Some d \<Rightarrow>
                    if length d = 8 then
                      Some (Inr \<lparr>saved_disp = disp_of_bytes d, saved_dt_buf = dt_buf, saved_et_buf = et_buf\<rparr>)
                    else None)))"

section \<open>Encoding lemmas\<close>

lemma length_le_bytes [simp]: "length (le_bytes k n) = k"
  by (induction k arbitrary: n) auto

lemma le_value_bytes: "le_value (le_bytes k n) = n mod 256 ^ k"
proof (induction k arbitrary: n)
  case (Suc k)
  have "n mod 256 ^ Suc k = n mod 256 + 256 * (n div 256 mod 256 ^ k)"
    by (simp add: mod_mult2_eq add.commute)
  then show ?case using Suc by simp
qed simp

lemma disp_roundtrip: "disp_of_bytes (disp_bytes d) = d" and length_disp_bytes: "length (disp_bytes d) = 8"
proof -
  have "unat d < 256 ^ 8" using unsigned_less [of d] by simp
  then show "disp_of_bytes (disp_bytes d) = d"
    by (simp add: disp_of_bytes_def disp_bytes_def le_value_bytes)
qed (simp add: disp_bytes_def)

lemma chunk_name_eq: "i < 10 ^ 9 \<Longrightarrow> chunk_name i = BBVIEW_ATTR_DATATYPE @ show_nat i"
  using length_show_nat [of i 9] by (simp add: chunk_name_def fit_id BBVIEW_ATTR_DATATYPE_def)

lemma chunk_name_inject: "i < 10 ^ 9 \<Longrightarrow> j < 10 ^ 9 \<Longrightarrow> chunk_name i = chunk_name j \<longleftrightarrow> i = j"
  by (simp add: chunk_name_eq)

lemma chunk_name_other:
  "i < 10 ^ 9 \<Longrightarrow> chunk_name i \<noteq> BBVIEW_ATTR_DEST_PATH"
  "i < 10 ^ 9 \<Longrightarrow> chunk_name i \<noteq> BBVIEW_ATTR_ETYPE"
  "i < 10 ^ 9 \<Longrightarrow> chunk_name i \<noteq> BBVIEW_ATTR_DISP"
  by (simp_all add: chunk_name_eq attr_names)

text \<open>The pieces into which a buffer is cut.\<close>

function pieces :: "string \<Rightarrow> string list" where
  "pieces buf = (if buf = [] then [] else take MAX_XATTR_VALUE_SIZE buf # pieces (drop MAX_XATTR_VALUE_SIZE buf))"
  by pat_completeness auto
termination by (relation "measure length") (auto simp: MAX_XATTR_VALUE_SIZE_def)

declare pieces.simps [simp del]

lemma pieces_Nil [simp]: "pieces [] = []"
  by (simp add: pieces.simps)

lemma concat_pieces: "concat (pieces buf) = buf"
  by (induction buf rule: pieces.induct) (subst pieces.simps, simp)

lemma pieces_length: "p \<in> set (pieces buf) \<Longrightarrow> length p \<le> MAX_XATTR_VALUE_SIZE"
  by (induction buf rule: pieces.induct) (subst (asm) pieces.simps, auto split: if_splits)

lemma length_pieces: "length (pieces buf) \<le> n \<longleftrightarrow> length buf \<le> n * MAX_XATTR_VALUE_SIZE"
proof (induction buf arbitrary: n rule: pieces.induct)
  case (1 buf)
  show ?case
  proof (cases "buf = []")
    case False
    then show ?thesis using "1.IH" [OF False, of "n - 1"]
      by (subst pieces.simps) (cases n, auto simp: MAX_XATTR_VALUE_SIZE_def)
  qed simp
qed

lemma concat_drop_pieces: "concat (drop k (pieces buf)) = drop (k * MAX_XATTR_VALUE_SIZE) buf"
proof (induction buf arbitrary: k rule: pieces.induct)
  case (1 buf)
  show ?case
  proof (cases "buf = [] \<or> k = 0")
    case True
    then show ?thesis by (auto simp: concat_pieces)
  next
    case False
    then obtain j where j: "k = Suc j" by (cases k) auto
    then show ?thesis using "1.IH" [of j] False by (subst pieces.simps) (simp add: add.commute)
  qed
qed

section \<open>Reading back what was written\<close>

lemma read_chunks_pieces:
  assumes "\<forall>i < length ps. get (chunk_name (idx + i)) = Some (ps ! i)"
    and "\<forall>p \<in> set ps. length p \<le> MAX_XATTR_VALUE_SIZE" and "idx + length ps \<le> 64"
    and "idx + length ps = 64 \<or> get (chunk_name (idx + length ps)) = None" and "0 < idx \<or> ps \<noteq> []"
  shows "read_chunks get acc idx = Inr (acc @ concat ps)"
  using assms
proof (induction ps arbitrary: idx acc)
  case Nil
  then show ?case
    by (subst read_chunks.simps) (auto simp: getxattr_def MAX_XATTR_VALUE_SIZE_def TARGET_BUFFER_SIZE_def)
next
  case (Cons p ps)
  have "get (chunk_name idx) = Some p" using Cons.prems(1) by (metis add.right_neutral length_greater_0_conv list.distinct(1) nth_Cons_0)
  then have "read_chunks get acc idx = read_chunks get (acc @ p) (Suc idx)"
    using Cons.prems(2,3)
    by (subst read_chunks.simps) (simp add: getxattr_def MAX_XATTR_VALUE_SIZE_def TARGET_BUFFER_SIZE_def)
  moreover have "\<forall>i < length ps. get (chunk_name (Suc idx + i)) = Some (ps ! i)"
    using Cons.prems(1) by (metis Suc_less_eq add_Suc add_Suc_right length_Cons nth_Cons_Suc)
  ultimately show ?case using Cons.IH [of "Suc idx" "acc @ p"] Cons.prems(2-4) by simp
qed

text \<open>The loop over a buffer that is read as a whole.\<close>

function put_chunks ::
  "('m \<Rightarrow> string \<Rightarrow> string \<Rightarrow> 'm option) \<Rightarrow> 'm \<Rightarrow> string \<Rightarrow> nat \<Rightarrow> nat \<Rightarrow> bool \<times> 'm" where
  "put_chunks setx m buf offset index =
     (if offset < length buf then
        (let k = min (length buf - offset) MAX_XATTR_VALUE_SIZE in
         case setx m (chunk_name index) (take k (drop offset buf)) of
           None \<Rightarrow> (False, m)
         | Some m' \<Rightarrow> put_chunks setx m' buf (offset + k) (index + 1))
      else (True, m))"
  by pat_completeness auto
termination
  by (relation "measure (\<lambda>(setx, m, buf, offset, index). length buf - offset)")
     (auto simp: MAX_XATTR_VALUE_SIZE_def)

declare put_chunks.simps [simp del]

lemma user_bytes_within:
  assumes "user_bytes buf 0 len = Some b" "offset + n \<le> len"
  shows "user_bytes buf offset n = Some (take n (drop offset b))" "length b = len"
  using assms by (auto simp: user_bytes_def take_drop split: if_splits option.splits)

lemma write_chunks_put:
  assumes "user_bytes buf 0 len = Some b"
  shows "write_chunks setx m buf len offset index = Some (put_chunks setx m b offset index)"
  using assms
proof (induction setx m buf len offset index rule: write_chunks.induct)
  case (1 setx m buf len offset index)
  let ?k = "min (len - offset) MAX_XATTR_VALUE_SIZE"
  have len: "length b = len" using user_bytes_within(2) [OF "1.prems", of 0 0] by simp
  show ?case
  proof (cases "offset < len")
    case True
    have r: "user_bytes buf offset ?k = Some (take ?k (drop offset b))"
      by (rule user_bytes_within(1) [OF "1.prems"]) (use True in simp)
    show ?thesis
      using "1.IH" [OF True refl r] "1.prems" True r len
      by (subst write_chunks.simps, subst put_chunks.simps) (simp add: Let_def split: option.split)
  next
    case False
    then show ?thesis using len by (subst write_chunks.simps, subst put_chunks.simps) simp
  qed
qed

locale attr_store =
  fixes setx :: "'m \<Rightarrow> string \<Rightarrow> string \<Rightarrow> 'm option" and get :: "'m \<Rightarrow> string \<Rightarrow> string option"
  assumes get_set: "setx m n v = Some m' \<Longrightarrow> get m' = (get m)(n \<mapsto> v)"
begin

lemma put_chunks_get:
  assumes "put_chunks setx m buf offset idx = (True, m')"
    and "idx + length (pieces (drop offset buf)) < 10 ^ 9"
  shows "(\<forall>i < length (pieces (drop offset buf)). get m' (chunk_name (idx + i)) = Some (pieces (drop offset buf) ! i)) \<and>
    (\<forall>n. (\<forall>i < length (pieces (drop offset buf)). n \<noteq> chunk_name (idx + i)) \<longrightarrow> get m' n = get m n)"
  using assms
proof (induction "length buf - offset" arbitrary: m offset idx rule: less_induct)
  case less
  note unfold = put_chunks.simps [of setx m buf offset idx]
  show ?case
  proof (cases "offset < length buf")
    case False
    with less.prems show ?thesis by (simp add: unfold)
  next
    case True
    let ?k = "min (length buf - offset) MAX_XATTR_VALUE_SIZE"
    let ?ps = "pieces (drop (offset + ?k) buf)"
    have p: "pieces (drop offset buf) = take ?k (drop offset buf) # ?ps"
      using True by (subst pieces.simps) (auto simp: min_def add.commute)
    obtain m1 where s: "setx m (chunk_name idx) (take ?k (drop offset buf)) = Some m1"
      and w: "put_chunks setx m1 buf (offset + ?k) (idx + 1) = (True, m')"
      using less.prems(1) True by (auto simp: unfold Let_def split: option.splits)
    have small: "idx + 1 + length ?ps < 10 ^ 9" using less.prems(2) p by simp
    have "length buf - (offset + ?k) < length buf - offset" using True by (simp add: MAX_XATTR_VALUE_SIZE_def)
    note ih = less.hyps [OF this w small]
    have other: "chunk_name idx \<noteq> chunk_name (idx + 1 + i)" if "i < length ?ps" for i
      using that small by (subst chunk_name_inject) auto
    have first: "get m' (chunk_name idx) = Some (take ?k (drop offset buf))"
      using ih other get_set [OF s] by simp
    have rest: "get m' (chunk_name (idx + Suc i)) = Some (?ps ! i)" if "i < length ?ps" for i
      using ih that by simp
    have "get m' n = get m n" if n: "\<forall>i < length (take ?k (drop offset buf) # ?ps). n \<noteq> chunk_name (idx + i)" for n
    proof -
      have "n \<noteq> chunk_name idx" using n by (metis add.right_neutral length_greater_0_conv list.distinct(1))
      moreover have "\<forall>i < length ?ps. n \<noteq> chunk_name (idx + 1 + i)"
        using n by (metis Suc_less_eq add_Suc_right add_Suc add.right_neutral length_Cons One_nat_def)
      ultimately show ?thesis using ih get_set [OF s] by simp
    qed
    then show ?thesis
      unfolding p using first rest by (auto simp: less_Suc_eq_0_disj)
  qed
qed

text \<open>What a successful run of the writer leaves in the store.\<close>

lemma set_attrs:
  assumes set: "set_xattrs_for_bbview setx rp sv m = Some (True, m')" and desc: "saved_desc sv = Some data"
    and np: "length (pieces (saved_dt_buf data)) \<le> 64"
  shows "get m' BBVIEW_ATTR_ETYPE = Some (saved_et_buf data)"
    and "get m' BBVIEW_ATTR_DISP = Some (disp_bytes (saved_disp data))"
    and "get m' BBVIEW_ATTR_DEST_PATH = rp"
    and "i < length (pieces (saved_dt_buf data)) \<Longrightarrow> get m' (chunk_name i) = Some (pieces (saved_dt_buf data) ! i)"
    and "length (pieces (saved_dt_buf data)) \<le> i \<Longrightarrow> i \<le> 64 \<Longrightarrow> get m' (chunk_name i) = get m (chunk_name i)"
proof -
  let ?ps = "pieces (saved_dt_buf data)"
  have sv: "sv_disp sv = saved_disp data" "user_bytes (sv_dt_buf sv) 0 (sv_dt_len sv) = Some (saved_dt_buf data)"
    "user_bytes (sv_et_buf sv) 0 (sv_et_len sv) = Some (saved_et_buf data)"
    using desc by (auto simp: saved_desc_def bind_eq_Some_conv)
  note run = set [unfolded set_xattrs_for_bbview_def write_chunks_put [OF sv(2)] sv(1,3)]
  obtain p m1 m2 m3 where rp: "rp = Some p" and s1: "setx m BBVIEW_ATTR_DEST_PATH p = Some m1"
    and s2: "setx m1 BBVIEW_ATTR_DISP (disp_bytes (saved_disp data)) = Some m2"
    and w: "put_chunks setx m2 (saved_dt_buf data) 0 0 = (True, m3)"
    and s4: "setx m3 BBVIEW_ATTR_ETYPE (saved_et_buf data) = Some m'"
    using run by (auto split: option.splits prod.splits if_splits)
  note sets = get_set [OF s1] get_set [OF s2] get_set [OF s4]
  have small: "0 + length (pieces (drop 0 (saved_dt_buf data))) < 10 ^ 9" using np by simp
  note wg = put_chunks_get [OF w small, simplified]
  have names: "BBVIEW_ATTR_DISP \<noteq> chunk_name i" "BBVIEW_ATTR_DEST_PATH \<noteq> chunk_name i"
    "BBVIEW_ATTR_ETYPE \<noteq> chunk_name i" if "i \<le> 64" for i
    using chunk_name_other [of i] that by fastforce+
  have distinct: "BBVIEW_ATTR_DISP \<noteq> BBVIEW_ATTR_ETYPE" "BBVIEW_ATTR_DEST_PATH \<noteq> BBVIEW_ATTR_ETYPE"
    "BBVIEW_ATTR_DISP \<noteq> BBVIEW_ATTR_DEST_PATH" by (simp_all add: attr_names)
  have kept: "get m3 BBVIEW_ATTR_DISP = get m2 BBVIEW_ATTR_DISP"
    "get m3 BBVIEW_ATTR_DEST_PATH = get m2 BBVIEW_ATTR_DEST_PATH"
    using wg names np by (metis less_imp_le_nat order.trans)+
  show "get m' BBVIEW_ATTR_ETYPE = Some (saved_et_buf data)" using sets(3) by simp
  show "get m' BBVIEW_ATTR_DISP = Some (disp_bytes (saved_disp data))" using sets kept distinct by simp
  show "get m' BBVIEW_ATTR_DEST_PATH = rp" using sets kept distinct rp by simp
  show "get m' (chunk_name i) = Some (?ps ! i)" if "i < length ?ps" for i
    using that wg np names(3) [of i] sets(3) by simp
  show "get m' (chunk_name i) = get m (chunk_name i)" if "length ?ps \<le> i" "i \<le> 64" for i
  proof -
    have "\<forall>j < length ?ps. chunk_name i \<noteq> chunk_name j"
      using np that by (auto simp: chunk_name_inject)
    then have "get m3 (chunk_name i) = get m2 (chunk_name i)" using wg by blast
    then show ?thesis using sets names [of i] that by auto
  qed
qed

text \<open>The reader gets the new description, followed by the chunks that were there before.\<close>

lemma set_then_read:
  assumes set: "set_xattrs_for_bbview setx rp sv m = Some (True, m')" and desc: "saved_desc sv = Some data"
    and dt: "saved_dt_buf data \<noteq> []" and et: "length (saved_et_buf data) \<le> MAX_XATTR_VALUE_SIZE"
    and k: "k = length (pieces (saved_dt_buf data))" "k + length qs \<le> 64"
    and old: "\<forall>i < length qs. get m (chunk_name (k + i)) = Some (qs ! i)"
      "\<forall>q \<in> set qs. length q \<le> MAX_XATTR_VALUE_SIZE"
    and stop: "k + length qs = 64 \<or> get m (chunk_name (k + length qs)) = None"
  shows "load_view (get m') = Some (Inr (data\<lparr>saved_dt_buf := saved_dt_buf data @ concat qs\<rparr>)) \<and>
    get m' BBVIEW_ATTR_DEST_PATH = rp"
proof -
  let ?ps = "pieces (saved_dt_buf data)"
  have np: "length ?ps \<le> 64" using k by simp
  note a = set_attrs [OF set desc np]
  have "read_chunks (get m') [] 0 = Inr ([] @ concat (?ps @ qs))"
  proof (rule read_chunks_pieces)
    show "\<forall>i < length (?ps @ qs). get m' (chunk_name (0 + i)) = Some ((?ps @ qs) ! i)"
    proof (intro allI impI)
      fix i assume i: "i < length (?ps @ qs)"
      show "get m' (chunk_name (0 + i)) = Some ((?ps @ qs) ! i)"
      proof (cases "i < length ?ps")
        case True
        then show ?thesis using a(4) by (simp add: nth_append)
      next
        case False
        then have "get m' (chunk_name i) = Some (qs ! (i - k))"
          using a(5) [of i] i k old(1) by (metis (no_types, lifting) le_add_diff_inverse length_append
              nat_add_left_cancel_less not_less order.strict_implies_order order.trans)
        then show ?thesis using False k by (simp add: nth_append)
      qed
    qed
    show "\<forall>p \<in> set (?ps @ qs). length p \<le> MAX_XATTR_VALUE_SIZE" using pieces_length old(2) by auto
    show "0 + length (?ps @ qs) = 64 \<or> get m' (chunk_name (0 + length (?ps @ qs))) = None"
      using stop a(5) [of "length (?ps @ qs)"] k by auto
    show "0 < (0::nat) \<or> ?ps @ qs \<noteq> []" using dt by (subst pieces.simps) simp
  qed (use k in simp)
  then show ?thesis
    using a(1-3) et by (simp add: load_view_def getxattr_def concat_pieces length_disp_bytes disp_roundtrip)
qed

lemma set_then_load:
  assumes set: "set_xattrs_for_bbview setx rp sv m = Some (True, m')" and desc: "saved_desc sv = Some data"
    and dt: "saved_dt_buf data \<noteq> []" "length (saved_dt_buf data) \<le> TARGET_BUFFER_SIZE"
    and et: "length (saved_et_buf data) \<le> MAX_XATTR_VALUE_SIZE"
    and fresh: "length (pieces (saved_dt_buf data)) = 64 \<or>
      get m (chunk_name (length (pieces (saved_dt_buf data)))) = None"
  shows "load_view (get m') = Some (Inr data) \<and> get m' BBVIEW_ATTR_DEST_PATH = rp"
proof -
  have "length (pieces (saved_dt_buf data)) \<le> 64" using dt(2) length_pieces [of "saved_dt_buf data" 64]
    by (simp add: TARGET_BUFFER_SIZE_def MAX_XATTR_VALUE_SIZE_def)
  then show ?thesis using set_then_read [OF set desc dt(1) et refl, of "[]"] fresh by simp
qed

text \<open>Two runs on the same store: the chunks of a longer first description stay behind the second.\<close>

lemma set_twice:
  assumes first: "set_xattrs_for_bbview setx rp1 sv1 m = Some (True, m1)" "saved_desc sv1 = Some d1"
    and same: "\<And>n. get m2 n = get m1 n"
    and second: "set_xattrs_for_bbview setx rp2 sv2 m2 = Some (True, m3)" "saved_desc sv2 = Some d2"
    and dt: "saved_dt_buf d2 \<noteq> []" "length (saved_dt_buf d1) \<le> TARGET_BUFFER_SIZE"
    and shorter: "length (pieces (saved_dt_buf d2)) \<le> length (pieces (saved_dt_buf d1))"
    and et: "length (saved_et_buf d2) \<le> MAX_XATTR_VALUE_SIZE"
    and fresh: "length (pieces (saved_dt_buf d1)) = 64 \<or>
      get m (chunk_name (length (pieces (saved_dt_buf d1)))) = None"
  shows "load_view (get m3) = Some (Inr (d2\<lparr>saved_dt_buf := saved_dt_buf d2 @
      concat (drop (length (pieces (saved_dt_buf d2))) (pieces (saved_dt_buf d1)))\<rparr>)) \<and>
    get m3 BBVIEW_ATTR_DEST_PATH = rp2"
proof -
  let ?k = "length (pieces (saved_dt_buf d2))" and ?ps = "pieces (saved_dt_buf d1)"
  have np: "length ?ps \<le> 64" using dt(2) length_pieces [of "saved_dt_buf d1" 64]
    by (simp add: TARGET_BUFFER_SIZE_def MAX_XATTR_VALUE_SIZE_def)
  note a = set_attrs [OF first np]
  show ?thesis
  proof (rule set_then_read [OF second dt(1) et refl])
    show "\<forall>i < length (drop ?k ?ps). get m2 (chunk_name (?k + i)) = Some (drop ?k ?ps ! i)"
      using a(4) shorter by (simp add: same)
    show "\<forall>q \<in> set (drop ?k ?ps). length q \<le> MAX_XATTR_VALUE_SIZE"
      using pieces_length by (blast dest: in_set_dropD)
    show "?k + length (drop ?k ?ps) = 64 \<or> get m2 (chunk_name (?k + length (drop ?k ?ps))) = None"
      using fresh a(5) [of "length ?ps"] np shorter by (auto simp: same)
  qed (use np shorter in simp)
qed

end

interpretation local_file: attr_store "setxattr accepts path" "attr_of path" for accepts path
  by unfold_locales (auto simp: setxattr_def attr_of_def split: option.splits if_splits)

text \<open>What every \<open>setxattr\<close> keeps, the writer keeps, also when it fails.\<close>

definition attr_kept :: "('m \<Rightarrow> string \<Rightarrow> string \<Rightarrow> 'm option) \<Rightarrow> ('m \<Rightarrow> bool) \<Rightarrow> bool" where
  "attr_kept setx Q \<longleftrightarrow> (\<forall>m n v m'. setx m n v = Some m' \<longrightarrow> Q m \<longrightarrow> Q m')"

lemma attr_keptD: "attr_kept setx Q \<Longrightarrow> setx m n v = Some m' \<Longrightarrow> Q m \<Longrightarrow> Q m'"
  by (auto simp: attr_kept_def)

lemma write_chunks_keeps:
  "attr_kept setx Q \<Longrightarrow> Q m \<Longrightarrow> write_chunks setx m buf len offset index = Some (ok, m') \<Longrightarrow> Q m'"
proof (induction setx m buf len offset index rule: write_chunks.induct)
  case (1 setx m buf len offset index)
  show ?case
  proof (cases "offset < len")
    case True
    then show ?thesis
      using "1.IH" [OF True refl _ _ "1.prems"(1)] "1.prems"(2,3) attr_keptD [OF "1.prems"(1)]
      by (subst (asm) write_chunks.simps) (auto simp: Let_def split: option.splits)
  next
    case False
    then show ?thesis using "1.prems"(2,3) by (subst (asm) write_chunks.simps) simp
  qed
qed

lemma set_xattrs_keeps:
  assumes "attr_kept setx Q" "Q m" "set_xattrs_for_bbview setx rp data m = Some (ok, m')"
  shows "Q m'"
proof -
  note keep = attr_keptD [OF assms(1)]
  have chunks: "Q v" if "write_chunks setx u b l i j = Some (ok', v)" "Q u" for u b l i j ok' v
    by (rule write_chunks_keeps [OF assms(1) that(2,1)])
  show ?thesis
    using assms(2,3)
    by (auto simp: set_xattrs_for_bbview_def bind_eq_Some_conv split: option.splits if_splits)
      (blast intro: keep chunks)+
qed

definition contents :: "fs \<Rightarrow> string \<Rightarrow> string option" where
  "contents m p = map_option content (m p)"

lemma set_xattrs_contents:
  assumes "set_xattrs_for_bbview (setxattr accepts path) rp data m = Some (ok, m')"
  shows "contents m' = contents m"
proof (rule set_xattrs_keeps [OF _ _ assms, where Q = "\<lambda>u. contents u = contents m"])
  have "contents u' = contents u" if "setxattr accepts path u n v = Some u'" for u u' n v
    using that
    by (cases "u path") (auto simp: setxattr_def contents_def [abs_def] split: if_splits)
  then show "attr_kept (setxattr accepts path) (\<lambda>u. contents u = contents m)" by (simp add: attr_kept_def)
qed simp

text \<open>A complete description is never read past its buffers.\<close>

lemma set_xattrs_total:
  assumes "saved_desc sv = Some desc"
  shows "\<exists>ok m'. set_xattrs_for_bbview setx rp sv m = Some (ok, m')"
proof -
  have sv: "user_bytes (sv_dt_buf sv) 0 (sv_dt_len sv) = Some (saved_dt_buf desc)"
    "user_bytes (sv_et_buf sv) 0 (sv_et_len sv) = Some (saved_et_buf desc)"
    using assms by (auto simp: saved_desc_def bind_eq_Some_conv)
  then show ?thesis
    by (auto simp: set_xattrs_for_bbview_def write_chunks_put [OF sv(1)] split: option.split prod.split)
qed

text \<open>On a file that does not exist the first \<open>setxattr\<close> fails, and no buffer is read.\<close>

lemma set_xattrs_missing:
  "m path = None \<Longrightarrow> set_xattrs_for_bbview (setxattr accepts path) rp data m = Some (False, m)"
  by (simp add: set_xattrs_for_bbview_def setxattr_def split: option.split)

text \<open>Where every \<open>setxattr\<close> succeeds, a complete description is stored.\<close>

lemma put_chunks_accepted:
  "(\<And>m n v. Q m \<Longrightarrow> \<exists>m'. setx m n v = Some m' \<and> Q m') \<Longrightarrow> Q m \<Longrightarrow>
   \<exists>m'. put_chunks setx m buf offset index = (True, m') \<and> Q m'"
proof (induction setx m buf offset index rule: put_chunks.induct)
  case (1 setx m buf offset index)
  show ?case
  proof (cases "offset < length buf")
    case True
    obtain m1 where m1: "setx m (chunk_name index) (take (min (length buf - offset) MAX_XATTR_VALUE_SIZE) (drop offset buf)) = Some m1"
        "Q m1" using "1.prems"(1) [OF "1.prems"(2)] by blast
    then show ?thesis
      using "1.IH" [OF True refl m1(1) "1.prems"(1) m1(2)] True by (subst put_chunks.simps) (simp add: Let_def)
  next
    case False
    then show ?thesis using "1.prems"(2) by (subst put_chunks.simps) simp
  qed
qed

lemma set_xattrs_accepted:
  assumes "m path \<noteq> None" "saved_desc sv = Some desc"
  shows "\<exists>m'. set_xattrs_for_bbview (setxattr (\<lambda>_ _ _. True) path) (Some rp) sv m = Some (True, m') \<and> m' path \<noteq> None"
proof -
  have sv: "user_bytes (sv_dt_buf sv) 0 (sv_dt_len sv) = Some (saved_dt_buf desc)"
    "user_bytes (sv_et_buf sv) 0 (sv_et_len sv) = Some (saved_et_buf desc)"
    using assms(2) by (auto simp: saved_desc_def bind_eq_Some_conv)
  have ok: "\<exists>m'. setxattr (\<lambda>_ _ _. True) path m n v = Some m' \<and> m' path \<noteq> None" if "m path \<noteq> None" for m n v
    using that by (cases "m path") (simp_all add: setxattr_def)
  obtain m1 where m1: "setxattr (\<lambda>_ _ _. True) path m BBVIEW_ATTR_DEST_PATH rp = Some m1" "m1 path \<noteq> None"
    using ok [of m, OF assms(1)] by blast
  obtain m2 where m2: "setxattr (\<lambda>_ _ _. True) path m1 BBVIEW_ATTR_DISP (disp_bytes (sv_disp sv)) = Some m2" "m2 path \<noteq> None"
    using ok [of m1, OF m1(2)] by blast
  obtain m3 where m3: "put_chunks (setxattr (\<lambda>_ _ _. True) path) m2 (saved_dt_buf desc) 0 0 = (True, m3)" "m3 path \<noteq> None"
    using put_chunks_accepted [where Q = "\<lambda>m. m path \<noteq> None" and setx = "setxattr (\<lambda>_ _ _. True) path" and m = m2] ok m2(2)
    by blast
  obtain m4 where "setxattr (\<lambda>_ _ _. True) path m3 BBVIEW_ATTR_ETYPE (saved_et_buf desc) = Some m4" "m4 path \<noteq> None"
    using ok [of m3, OF m3(2)] by blast
  then show ?thesis using m1 m2 m3 sv by (simp add: set_xattrs_for_bbview_def write_chunks_put)
qed

section \<open>Properties\<close>

text \<open>C10: the daemon reads back exactly the view that the writer described: when every
  \<open>setxattr\<close> succeeded, for a packed data type of one byte up to 4 MiB whose next
  chunk name was not in use on the file before, the reader gets the same displacement, data
  type and element type, and the destination attribute is the resolved path.\<close>

theorem xattr_roundtrip:
  assumes "set_xattrs_for_bbview (setxattr accepts path) realpath sv m = Some (True, m')"
    and "saved_desc sv = Some data"
    and "saved_dt_buf data \<noteq> []" "length (saved_dt_buf data) \<le> TARGET_BUFFER_SIZE"
    and "length (saved_et_buf data) \<le> MAX_XATTR_VALUE_SIZE"
    and "length (pieces (saved_dt_buf data)) = 64 \<or>
      attr_of path m (chunk_name (length (pieces (saved_dt_buf data)))) = None"
  shows "load_view (attr_of path m') = Some (Inr data) \<and> attr_of path m' BBVIEW_ATTR_DEST_PATH = realpath"
  by (rule local_file.set_then_load [OF assms])

definition example_fs :: fs where
  "example_fs = [''/scr/f'' \<mapsto> \<lparr>content = [], attrs = Map.empty\<rparr>]"

definition example_desc :: view_desc where
  "example_desc = \<lparr>saved_disp = 3, saved_dt_buf = ''dt'', saved_et_buf = ''et''\<rparr>"

definition example_saved :: saved_view where
  "example_saved = \<lparr>sv_disp = 3, sv_dt_buf = Some ''dt'', sv_dt_len = 2, sv_et_buf = Some ''etc'', sv_et_len = 2\<rparr>"

theorem xattr_roundtrip_witness:
  "\<exists>m'. set_xattrs_for_bbview (setxattr (\<lambda>_ _ _. True) ''/scr/f'') (Some ''/pfs/f'') example_saved example_fs =
      Some (True, m') \<and>
    load_view (attr_of ''/scr/f'' m') = Some (Inr example_desc)"
proof -
  have desc: "saved_desc example_saved = Some example_desc"
    by (simp add: saved_desc_def example_saved_def example_desc_def user_bytes_def)
  obtain m' where "set_xattrs_for_bbview (setxattr (\<lambda>_ _ _. True) ''/scr/f'') (Some ''/pfs/f'') example_saved example_fs =
      Some (True, m')"
    using set_xattrs_accepted [OF _ desc, of example_fs "''/scr/f''" "''/pfs/f''"] by (auto simp: example_fs_def)
  moreover from xattr_roundtrip [OF this desc] have "load_view (attr_of ''/scr/f'' m') = Some (Inr example_desc)"
    by (simp add: example_desc_def example_fs_def TARGET_BUFFER_SIZE_def MAX_XATTR_VALUE_SIZE_def attr_of_def)
  ultimately show ?thesis by blast
qed

end
