(* ===== verification/BBV_Directio.thy ===== *)
theory BBV_Directio
  imports BBV_Prelude
begin

text \<open>
  \<open>enable_directio\<close> (\<open>io_bbview_file_set_view.c\<close> lines 64--341): may the buffer file of a view be
  opened with \<open>O_DIRECT\<close>? The function walks the constructor tree of an MPI data type, which
  is a data type here: what \<open>PMPI_Type_get_envelope\<close>, \<open>PMPI_Type_get_contents\<close> and
  \<open>PMPI_Type_size\<close> return is stored in its nodes. Whether one of these calls fails, and the
  numeric values of the MPI constants, are parameters. The three small allocations at the start
  are taken to succeed; both exits free them.
\<close>

section \<open>MPI data types\<close>

datatype combiner =
    MPI_COMBINER_NAMED | MPI_COMBINER_DUP | MPI_COMBINER_CONTIGUOUS
  | MPI_COMBINER_VECTOR | MPI_COMBINER_HVECTOR | MPI_COMBINER_INDEXED | MPI_COMBINER_HINDEXED
  | MPI_COMBINER_INDEXED_BLOCK | MPI_COMBINER_HINDEXED_BLOCK | MPI_COMBINER_STRUCT
  | MPI_COMBINER_SUBARRAY | MPI_COMBINER_DARRAY
  | MPI_COMBINER_F90_REAL | MPI_COMBINER_F90_COMPLEX | MPI_COMBINER_F90_INTEGER
  | MPI_COMBINER_RESIZED | Combiner_other nat

text \<open>\<open>handle\<close> identifies the type object; the integers and the inner types are those that
  \<open>PMPI_Type_get_contents\<close> stores in \<open>i\<close> and \<open>d\<close>.\<close>

datatype mpi_type =
  Mpi_type (handle: nat) (combiner: combiner) (ints: "int list") (parts: "mpi_type list") (type_size: int)

record mpi_calls =
  envelope_ok :: "mpi_type \<Rightarrow> bool"
  contents_ok :: "mpi_type \<Rightarrow> bool"
  size_ok :: "mpi_type \<Rightarrow> bool"
  MPI_ORDER_C :: int
  MPI_ORDER_FORTRAN :: int
  MPI_DISTRIBUTE_NONE :: int
  MPI_DISTRIBUTE_BLOCK :: int
  MPI_DISTRIBUTE_DFLT_DARG :: int

section \<open>The program\<close>

text \<open>\<open>size * count\<close> against the page size and the threshold, in C's \<open>int\<close>.\<close>

definition block_check :: "int \<Rightarrow> int \<Rightarrow> int \<Rightarrow> int \<Rightarrow> bool option" where
  "block_check pagesize threshold sz cnt = do {
     n \<leftarrow> i32 (sz * cnt);
     r \<leftarrow> c_mod n pagesize;
     Some (r = 0 \<and> threshold \<le> n) }"

text \<open>The part after a recursive call said no: only a named inner type is looked at further.\<close>

definition when_named :: "mpi_calls \<Rightarrow> mpi_type \<Rightarrow> (int \<Rightarrow> bool option) \<Rightarrow> bool option" where
  "when_named e d k =
     (if \<not> envelope_ok e d then Some False
      else if combiner d \<noteq> MPI_COMBINER_NAMED then Some False
      else if \<not> size_ok e d then Some False
      else if type_size d = 0 then Some False
      else k (type_size d))"

definition first_part ::
  "mpi_calls \<Rightarrow> mpi_type list \<Rightarrow> bool option list \<Rightarrow> (int \<Rightarrow> bool option) \<Rightarrow> bool option" where
  "first_part e d rs k = do {
     r \<leftarrow> rd rs 0;
     ret \<leftarrow> r;
     (if ret then Some True else do { d0 \<leftarrow> rd d 0; when_named e d0 k }) }"

definition named_case :: "mpi_calls \<Rightarrow> int \<Rightarrow> int \<Rightarrow> mpi_type \<Rightarrow> bool option" where
  "named_case e pagesize threshold t =
     (if \<not> size_ok e t then Some False
      else if type_size t = 0 then Some False
      else do {
        r \<leftarrow> c_mod (type_size t) pagesize;
        Some (r = 0 \<and> threshold \<le> type_size t) })"

definition contiguous_case ::
  "mpi_calls \<Rightarrow> int \<Rightarrow> int \<Rightarrow> int list \<Rightarrow> mpi_type list \<Rightarrow> bool option list \<Rightarrow> bool option" where
  "contiguous_case e pagesize threshold i d rs = do {
     cnt \<leftarrow> rd i 0;
     (if cnt = 0 then Some False
      else first_part e d rs (\<lambda>sz. block_check pagesize threshold sz cnt)) }"

text \<open>\<open>VECTOR\<close>, \<open>HVECTOR\<close>, \<open>INDEXED_BLOCK\<close> and \<open>HINDEXED_BLOCK\<close> have the same body.\<close>

definition vector_case ::
  "mpi_calls \<Rightarrow> int \<Rightarrow> int \<Rightarrow> int list \<Rightarrow> mpi_type list \<Rightarrow> bool option list \<Rightarrow> bool option" where
  "vector_case e pagesize threshold i d rs = do {
     i0 \<leftarrow> rd i 0;
     (if i0 = 0 then Some False
      else first_part e d rs (\<lambda>sz. do { i1 \<leftarrow> rd i 1; block_check pagesize threshold sz i1 })) }"

fun check_blocks :: "int \<Rightarrow> int \<Rightarrow> int \<Rightarrow> int list \<Rightarrow> nat \<Rightarrow> nat \<Rightarrow> bool option" where
  "check_blocks pagesize threshold sz i c 0 = Some True"
| "check_blocks pagesize threshold sz i c (Suc k) = do {
     n \<leftarrow> rd i (c + 1);
     ok \<leftarrow> block_check pagesize threshold sz n;
     (if ok then check_blocks pagesize threshold sz i (c + 1) k else Some False) }"

definition indexed_case ::
  "mpi_calls \<Rightarrow> int \<Rightarrow> int \<Rightarrow> int list \<Rightarrow> mpi_type list \<Rightarrow> bool option list \<Rightarrow> bool option" where
  "indexed_case e pagesize threshold i d rs = do {
     i0 \<leftarrow> rd i 0;
     (if i0 = 0 then Some False
      else first_part e d rs (\<lambda>sz. check_blocks pagesize threshold sz i 0 (nat i0))) }"

fun check_members ::
  "mpi_calls \<Rightarrow> int \<Rightarrow> int \<Rightarrow> int list \<Rightarrow> mpi_type list \<Rightarrow> bool option list \<Rightarrow> nat \<Rightarrow> nat \<Rightarrow> bool option" where
  "check_members e pagesize threshold i d rs c 0 = Some True"
| "check_members e pagesize threshold i d rs c (Suc k) = do {
     r \<leftarrow> rd rs c;
     ret \<leftarrow> r;
     ok \<leftarrow> (if ret then Some True
            else do {
              dc \<leftarrow> rd d c;
              when_named e dc (\<lambda>sz. do { n \<leftarrow> rd i (c + 1); block_check pagesize threshold sz n }) });
     (if ok then check_members e pagesize threshold i d rs (c + 1) k else Some False) }"

definition struct_case ::
  "mpi_calls \<Rightarrow> int \<Rightarrow> int \<Rightarrow> int list \<Rightarrow> mpi_type list \<Rightarrow> bool option list \<Rightarrow> bool option" where
  "struct_case e pagesize threshold i d rs = do {
     i0 \<leftarrow> rd i 0;
     (if i0 = 0 then Some False else check_members e pagesize threshold i d rs 0 (nat i0)) }"

definition subarray_case ::
  "mpi_calls \<Rightarrow> int \<Rightarrow> int \<Rightarrow> int list \<Rightarrow> mpi_type list \<Rightarrow> bool option list \<Rightarrow> bool option" where
  "subarray_case e pagesize threshold i d rs = do {
     i0 \<leftarrow> rd i 0;
     (if i0 = 0 then Some False
      else first_part e d rs (\<lambda>sz. do {
        order \<leftarrow> rdi i (3 * i0 + 1);
        (if order = MPI_ORDER_C e then do {
           n \<leftarrow> rdi i (2 * i0); block_check pagesize threshold sz n }
         else if order = MPI_ORDER_FORTRAN e then do {
           n \<leftarrow> rdi i (i0 + 1); block_check pagesize threshold sz n }
         else Some False) })) }"

definition darray_case ::
  "mpi_calls \<Rightarrow> int \<Rightarrow> int \<Rightarrow> int list \<Rightarrow> mpi_type list \<Rightarrow> bool option list \<Rightarrow> bool option" where
  "darray_case e pagesize threshold i d rs = do {
     i0 \<leftarrow> rd i 0;
     (if i0 = 0 then Some False
      else first_part e d rs (\<lambda>sz. do {
        ndims \<leftarrow> rd i 2;
        order \<leftarrow> rdi i (4 * ndims + 3);
        (if order \<noteq> MPI_ORDER_C e \<and> order \<noteq> MPI_ORDER_FORTRAN e then Some False
         else do {
           let dim = (if order = MPI_ORDER_C e then ndims - 1 else 0);
           distrib \<leftarrow> rdi i (ndims + 3 + dim);
           (if distrib = MPI_DISTRIBUTE_NONE e then do {
              n \<leftarrow> rdi i (3 + dim); block_check pagesize threshold sz n }
            else if distrib = MPI_DISTRIBUTE_BLOCK e then do {
              darg \<leftarrow> rdi i (2 * ndims + 3 + dim);
              block_size \<leftarrow> (if darg = MPI_DISTRIBUTE_DFLT_DARG e then do {
                  g \<leftarrow> rdi i (3 + dim); p \<leftarrow> rdi i (3 * ndims + 3 + dim);
                  c_div g p }
                else Some darg);
              block_check pagesize threshold sz block_size }
            else Some False) }) })) }"

text \<open>
  One call, given what the recursive calls on the inner types return. A combiner that the
  \<open>switch\<close> does not list falls through to the label \<open>enable\<close>.
\<close>

definition directio_node ::
  "mpi_calls \<Rightarrow> int \<Rightarrow> int \<Rightarrow> mpi_type \<Rightarrow> bool option list \<Rightarrow> bool option" where
  "directio_node e pagesize threshold t rs =
     (if \<not> envelope_ok e t then Some False
      else let unpack = (\<lambda>k. if contents_ok e t then k (ints t) (parts t) rs else Some False) in
        case combiner t of
          MPI_COMBINER_NAMED \<Rightarrow> named_case e pagesize threshold t
        | MPI_COMBINER_DUP \<Rightarrow> unpack (\<lambda>i d rs. do { r \<leftarrow> rd rs 0; r })
        | MPI_COMBINER_CONTIGUOUS \<Rightarrow> unpack (contiguous_case e pagesize threshold)
        | MPI_COMBINER_VECTOR \<Rightarrow> unpack (vector_case e pagesize threshold)
        | MPI_COMBINER_HVECTOR \<Rightarrow> unpack (vector_case e pagesize threshold)
        | MPI_COMBINER_INDEXED \<Rightarrow> unpack (indexed_case e pagesize threshold)
        | MPI_COMBINER_HINDEXED \<Rightarrow> unpack (indexed_case e pagesize threshold)
        | MPI_COMBINER_INDEXED_BLOCK \<Rightarrow> unpack (vector_case e pagesize threshold)
        | MPI_COMBINER_HINDEXED_BLOCK \<Rightarrow> unpack (vector_case e pagesize threshold)
        | MPI_COMBINER_STRUCT \<Rightarrow> unpack (struct_case e pagesize threshold)
        | MPI_COMBINER_SUBARRAY \<Rightarrow> unpack (subarray_case e pagesize threshold)
        | MPI_COMBINER_DARRAY \<Rightarrow> unpack (darray_case e pagesize threshold)
        | MPI_COMBINER_F90_REAL \<Rightarrow> Some False
        | MPI_COMBINER_F90_COMPLEX \<Rightarrow> Some False
        | MPI_COMBINER_F90_INTEGER \<Rightarrow> Some False
        | MPI_COMBINER_RESIZED \<Rightarrow> Some False
        | Combiner_other _ \<Rightarrow> Some True)"

fun enable_directio :: "mpi_calls \<Rightarrow> int \<Rightarrow> int \<Rightarrow> mpi_type \<Rightarrow> bool option" where
  "enable_directio e pagesize threshold (Mpi_type h c i d sz) =
     directio_node e pagesize threshold (Mpi_type h c i d sz) (map (enable_directio e pagesize threshold) d)"

section \<open>What the answer should mean\<close>

text \<open>
  The lengths in bytes of the pieces of memory that a type describes, as its constructors
  lay them out: \<open>n\<close> copies of a named type are one piece, \<open>n\<close> copies of another type are the
  pieces of each copy. Given for the types without a distributed array.
\<close>

definition copies :: "int \<Rightarrow> mpi_type \<Rightarrow> int list \<Rightarrow> int list" where
  "copies n d ls =
     (if n \<le> 0 then [] else if combiner d = MPI_COMBINER_NAMED then [type_size d * n]
      else concat (replicate (nat n) ls))"

definition node_blocks :: "mpi_calls \<Rightarrow> mpi_type \<Rightarrow> int list list \<Rightarrow> int list" where
  "node_blocks e t lss =
     (let i = ints t; d0 = parts t ! 0; l0 = lss ! 0; n0 = nat (i ! 0) in
      case combiner t of
        MPI_COMBINER_NAMED \<Rightarrow> [type_size t]
      | MPI_COMBINER_DUP \<Rightarrow> l0
      | MPI_COMBINER_CONTIGUOUS \<Rightarrow> copies (i ! 0) d0 l0
      | MPI_COMBINER_VECTOR \<Rightarrow> concat (replicate n0 (copies (i ! 1) d0 l0))
      | MPI_COMBINER_HVECTOR \<Rightarrow> concat (replicate n0 (copies (i ! 1) d0 l0))
      | MPI_COMBINER_INDEXED \<Rightarrow> concat (map (\<lambda>c. copies (i ! (c + 1)) d0 l0) [0..<n0])
      | MPI_COMBINER_HINDEXED \<Rightarrow> concat (map (\<lambda>c. copies (i ! (c + 1)) d0 l0) [0..<n0])
      | MPI_COMBINER_INDEXED_BLOCK \<Rightarrow> concat (replicate n0 (copies (i ! 1) d0 l0))
      | MPI_COMBINER_HINDEXED_BLOCK \<Rightarrow> concat (replicate n0 (copies (i ! 1) d0 l0))
      | MPI_COMBINER_STRUCT \<Rightarrow> concat (map (\<lambda>c. copies (i ! (c + 1)) (parts t ! c) (lss ! c)) [0..<n0])
      | MPI_COMBINER_SUBARRAY \<Rightarrow>
          (let fortran = (i ! (3 * n0 + 1) = MPI_ORDER_FORTRAN e \<and> i ! (3 * n0 + 1) \<noteq> MPI_ORDER_C e);
               subsizes = map (\<lambda>c. i ! (n0 + 1 + c)) [0..<n0];
               inner = (if fortran then subsizes ! 0 else last subsizes);
               outer = (if fortran then tl subsizes else butlast subsizes)
           in concat (replicate (nat (prod_list outer)) (copies inner d0 l0)))
      | _ \<Rightarrow> [])"

fun blocks :: "mpi_calls \<Rightarrow> mpi_type \<Rightarrow> int list" where
  "blocks e (Mpi_type h c i d sz) = node_blocks e (Mpi_type h c i d sz) (map (blocks e) d)"

text \<open>
  The shape of the argument lists that MPI guarantees, with block lengths that are not negative
  and blocks of named types whose size in bytes is a C \<open>int\<close>.
\<close>

definition fits_int :: "mpi_type \<Rightarrow> int \<Rightarrow> bool" where
  "fits_int d n \<longleftrightarrow> 0 \<le> n \<and> (combiner d = MPI_COMBINER_NAMED \<longrightarrow> type_size d * n < 2 ^ 31)"

definition node_wf :: "mpi_type \<Rightarrow> bool" where
  "node_wf t =
     (let i = ints t; d = parts t; n0 = nat (i ! 0) in
      case combiner t of
        MPI_COMBINER_NAMED \<Rightarrow> 0 \<le> type_size t
      | MPI_COMBINER_DUP \<Rightarrow> d \<noteq> []
      | MPI_COMBINER_CONTIGUOUS \<Rightarrow> i \<noteq> [] \<and> d \<noteq> [] \<and> fits_int (d ! 0) (i ! 0)
      | MPI_COMBINER_VECTOR \<Rightarrow> 2 \<le> length i \<and> d \<noteq> [] \<and> fits_int (d ! 0) (i ! 1)
      | MPI_COMBINER_HVECTOR \<Rightarrow> 2 \<le> length i \<and> d \<noteq> [] \<and> fits_int (d ! 0) (i ! 1)
      | MPI_COMBINER_INDEXED \<Rightarrow> n0 < length i \<and> d \<noteq> [] \<and> list_all (\<lambda>c. fits_int (d ! 0) (i ! (c + 1))) [0..<n0]
      | MPI_COMBINER_HINDEXED \<Rightarrow> n0 < length i \<and> d \<noteq> [] \<and> list_all (\<lambda>c. fits_int (d ! 0) (i ! (c + 1))) [0..<n0]
      | MPI_COMBINER_INDEXED_BLOCK \<Rightarrow> 2 \<le> length i \<and> d \<noteq> [] \<and> fits_int (d ! 0) (i ! 1)
      | MPI_COMBINER_HINDEXED_BLOCK \<Rightarrow> 2 \<le> length i \<and> d \<noteq> [] \<and> fits_int (d ! 0) (i ! 1)
      | MPI_COMBINER_STRUCT \<Rightarrow> n0 < length i \<and> n0 \<le> length d \<and> list_all (\<lambda>c. fits_int (d ! c) (i ! (c + 1))) [0..<n0]
      | MPI_COMBINER_SUBARRAY \<Rightarrow> length i = 3 * n0 + 2 \<and> 0 \<le> i ! 0 \<and> d \<noteq> [] \<and>
          list_all (\<lambda>c. fits_int (d ! 0) (i ! (n0 + 1 + c))) [0..<n0]
      | MPI_COMBINER_DARRAY \<Rightarrow> False
      | Combiner_other _ \<Rightarrow> False
      | _ \<Rightarrow> True)"

fun wf_type :: "mpi_type \<Rightarrow> bool" where
  "wf_type (Mpi_type h c i d sz) = (node_wf (Mpi_type h c i d sz) \<and> list_all wf_type d)"

section \<open>Soundness\<close>

definition good_block :: "int \<Rightarrow> int \<Rightarrow> int \<Rightarrow> bool" where
  "good_block pagesize threshold l \<longleftrightarrow> pagesize dvd l \<and> threshold \<le> l"

fun sound :: "int \<Rightarrow> int \<Rightarrow> bool option \<Rightarrow> int list \<Rightarrow> bool" where
  "sound p t None ls = False"
| "sound p t (Some b) ls = (b \<longrightarrow> list_all (good_block p t) ls)"

lemma soundE: "sound p t r ls \<Longrightarrow> (\<And>b. r = Some b \<Longrightarrow> (b \<Longrightarrow> list_all (good_block p t) ls) \<Longrightarrow> P) \<Longrightarrow> P"
  by (cases r) auto

lemma sound_append: "list_all (good_block p t) a \<Longrightarrow> sound p t r b \<Longrightarrow> sound p t r (a @ b)"
  by (cases r) auto

text \<open>What the induction knows of an inner type and its pieces.\<close>

definition part_ok :: "int \<Rightarrow> int \<Rightarrow> mpi_type \<Rightarrow> bool option \<Rightarrow> int list \<Rightarrow> bool" where
  "part_ok p t d r ls \<longleftrightarrow> sound p t r ls \<and>
     (combiner d = MPI_COMBINER_NAMED \<longrightarrow> ls = [type_size d] \<and> 0 \<le> type_size d)"

lemma block_check_eq:
  assumes "0 < p" "0 \<le> sz" "0 \<le> n" "sz * n < 2 ^ 31"
  shows "block_check p t sz n = Some (good_block p t (sz * n))"
proof -
  have "0 \<le> sz * n" using assms by simp
  then have "i32 (sz * n) = Some (sz * n)" using assms(4) by (intro i32_Some) linarith+
  then show ?thesis using assms(1)
    by (simp add: block_check_def c_mod_def good_block_def smod_eq_0_iff)
qed

lemma list_all_concat_replicate: "list_all P ls \<Longrightarrow> list_all P (concat (replicate k ls))"
  by (induction k) auto

lemma copies_named:
  "combiner d = MPI_COMBINER_NAMED \<Longrightarrow> good_block p t (type_size d * n) \<Longrightarrow> list_all (good_block p t) (copies n d ls)"
  by (simp add: copies_def)

lemma copies_part:
  assumes "part_ok p t d (Some True) ls" "0 < t"
  shows "list_all (good_block p t) (copies n d ls)"
proof (cases "combiner d = MPI_COMBINER_NAMED \<and> 0 < n")
  case True
  then have g: "p dvd type_size d" "t \<le> type_size d" using assms by (auto simp: part_ok_def good_block_def)
  then have "type_size d * 1 \<le> type_size d * n" using True assms(2) by (intro mult_left_mono) simp_all
  then show ?thesis using True g by (intro copies_named) (auto simp: good_block_def)
next
  case False
  then show ?thesis using assms by (auto simp: copies_def part_ok_def intro: list_all_concat_replicate)
qed

lemma when_named_sound:
  assumes "combiner d = MPI_COMBINER_NAMED \<Longrightarrow> sound p t (k (type_size d)) ls"
  shows "sound p t (when_named e d k) ls"
  using assms by (auto simp: when_named_def)

lemma first_part_sound:
  assumes "d \<noteq> []" "length rs = length d" "part_ok p t (d ! 0) (rs ! 0) l0" "0 < t"
    and yes: "part_ok p t (d ! 0) (Some True) l0 \<Longrightarrow> list_all (good_block p t) ls"
    and named: "combiner (d ! 0) = MPI_COMBINER_NAMED \<Longrightarrow> 0 \<le> type_size (d ! 0) \<Longrightarrow> sound p t (k (type_size (d ! 0))) ls"
  shows "sound p t (first_part e d rs k) ls"
proof -
  obtain b where b: "rs ! 0 = Some b" using assms(3) by (auto simp: part_ok_def elim: soundE)
  have rd0: "rd rs 0 = Some (Some b)" "rd d 0 = Some (d ! 0)" using assms(1,2) b by (simp_all add: rd_def)
  show ?thesis
  proof (cases b)
    case True
    then show ?thesis using rd0 yes assms(3) b by (simp add: first_part_def)
  next
    case False
    have "sound p t (when_named e (d ! 0) k) ls"
      by (rule when_named_sound) (use named assms(3) in \<open>auto simp: part_ok_def\<close>)
    then show ?thesis using rd0 False by (simp add: first_part_def)
  qed
qed

text \<open>One block size that decides for all the pieces.\<close>

lemma one_block_sound:
  assumes "0 < p" "combiner d0 = MPI_COMBINER_NAMED" "0 \<le> type_size d0" "fits_int d0 n"
    and "list_all (good_block p t) (copies n d0 la) \<Longrightarrow> list_all (good_block p t) ls"
  shows "sound p t (block_check p t (type_size d0) n) ls"
  using assms block_check_eq [of p "type_size d0" n t] copies_named [OF assms(2), of p t n la]
  by (auto simp: fits_int_def)

lemma check_blocks_sound:
  assumes "0 < p" "combiner d0 = MPI_COMBINER_NAMED" "0 \<le> type_size d0"
  shows "c + k < length i \<Longrightarrow> (\<And>j. c \<le> j \<Longrightarrow> j < c + k \<Longrightarrow> fits_int d0 (i ! (j + 1))) \<Longrightarrow>
    sound p t (check_blocks p t (type_size d0) i c k) (concat (map (\<lambda>j. copies (i ! (j + 1)) d0 l0) [c..<c + k]))"
proof (induction k arbitrary: c)
  case (Suc k)
  have f: "fits_int d0 (i ! (c + 1))" using Suc.prems(2) [of c] by simp
  have bc: "block_check p t (type_size d0) (i ! (c + 1)) = Some (good_block p t (type_size d0 * i ! (c + 1)))"
    using f assms by (intro block_check_eq) (simp_all add: fits_int_def)
  have IH: "sound p t (check_blocks p t (type_size d0) i (c + 1) k)
      (concat (map (\<lambda>j. copies (i ! (j + 1)) d0 l0) [c + 1..<c + 1 + k]))"
    using Suc.prems by (intro Suc.IH) auto
  have u: "[c..<c + Suc k] = c # [c + 1..<c + 1 + k]" by (subst upt_conv_Cons) simp_all
  have step: "check_blocks p t (type_size d0) i c (Suc k) =
      (if good_block p t (type_size d0 * i ! (c + 1)) then check_blocks p t (type_size d0) i (c + 1) k else Some False)"
    using bc Suc.prems(1) by (simp add: rd_def)
  show ?case
    unfolding step u using sound_append [OF copies_named [OF assms(2)] IH]
    by (simp only: list.map concat.simps split: if_split) simp
qed simp

lemma check_members_sound:
  assumes "0 < p" "0 < t" "length rs = length d"
    and parts: "\<And>j. j < length d \<Longrightarrow> part_ok p t (d ! j) (rs ! j) (lss ! j)"
  shows "c + k < length i \<Longrightarrow> c + k \<le> length d \<Longrightarrow>
    (\<And>j. c \<le> j \<Longrightarrow> j < c + k \<Longrightarrow> fits_int (d ! j) (i ! (j + 1))) \<Longrightarrow>
    sound p t (check_members e p t i d rs c k) (concat (map (\<lambda>j. copies (i ! (j + 1)) (d ! j) (lss ! j)) [c..<c + k]))"
proof (induction k arbitrary: c)
  case (Suc k)
  have f: "fits_int (d ! c) (i ! (c + 1))" using Suc.prems(3) [of c] by simp
  have pc: "part_ok p t (d ! c) (rs ! c) (lss ! c)" using parts Suc.prems(2) by simp
  then obtain b where b: "rs ! c = Some b" by (auto simp: part_ok_def elim: soundE)
  let ?r = "if b then Some True
            else do {
              dc \<leftarrow> rd d c;
              when_named e dc (\<lambda>sz. do { n \<leftarrow> rd i (c + 1); block_check p t sz n }) }"
  have "sound p t ?r (copies (i ! (c + 1)) (d ! c) (lss ! c))"
  proof (cases b)
    case True then show ?thesis using copies_part [of p t "d ! c"] pc b assms(2) by simp
  next
    case False
    have "sound p t (when_named e (d ! c) (\<lambda>sz. do { n \<leftarrow> rd i (c + 1); block_check p t sz n }))
        (copies (i ! (c + 1)) (d ! c) (lss ! c))"
      using one_block_sound [OF assms(1) _ _ f, where t = t and la = "lss ! c"] pc Suc.prems(1)
      by (intro when_named_sound) (auto simp: rd_def part_ok_def)
    then show ?thesis using False Suc.prems(2) by (simp add: rd_def)
  qed
  then obtain ok where ok: "?r = Some ok" "ok \<longrightarrow> list_all (good_block p t) (copies (i ! (c + 1)) (d ! c) (lss ! c))"
    by (rule soundE) blast
  have IH: "sound p t (check_members e p t i d rs (c + 1) k)
      (concat (map (\<lambda>j. copies (i ! (j + 1)) (d ! j) (lss ! j)) [c + 1..<c + 1 + k]))"
    using Suc.prems by (intro Suc.IH) auto
  have step: "check_members e p t i d rs c (Suc k) =
      (if ok then check_members e p t i d rs (c + 1) k else Some False)"
    using ok(1) b Suc.prems(2) assms(3) by (simp add: rd_def)
  have u: "[c..<c + Suc k] = c # [c + 1..<c + 1 + k]" by (subst upt_conv_Cons) simp_all
  show ?case unfolding step u using ok(2) sound_append [OF _ IH]
    by (simp only: list.map concat.simps split: if_split) simp
qed simp

lemma part_list_all: "part_ok p t d (Some True) ls \<Longrightarrow> list_all (good_block p t) ls"
  by (auto simp: part_ok_def)

lemma contiguous_sound:
  assumes "0 < p" "0 < t" "length rs = length d" "part_ok p t (d ! 0) (rs ! 0) la"
    and "i \<noteq> []" "d \<noteq> []" "fits_int (d ! 0) (i ! 0)"
  shows "sound p t (contiguous_case e p t i d rs) (copies (i ! 0) (d ! 0) la)"
proof -
  have "sound p t (first_part e d rs (\<lambda>sz. block_check p t sz (i ! 0))) (copies (i ! 0) (d ! 0) la)"
    using assms copies_part [of p t "d ! 0" la]
    by (intro first_part_sound [OF assms(6,3,4,2)]) (auto intro!: one_block_sound [where la = la])
  then show ?thesis using assms(5) by (simp add: contiguous_case_def rd_def)
qed

lemma vector_sound:
  assumes "0 < p" "0 < t" "length rs = length d" "part_ok p t (d ! 0) (rs ! 0) la"
    and "2 \<le> length i" "d \<noteq> []" "fits_int (d ! 0) (i ! 1)"
  shows "sound p t (vector_case e p t i d rs) (concat (replicate k (copies (i ! 1) (d ! 0) la)))"
proof -
  let ?k = "\<lambda>sz. do { i1 \<leftarrow> rd i 1; block_check p t sz i1 }"
  have r: "rd i 0 = Some (i ! 0)" "rd i 1 = Some (i ! 1)" using assms(5) by (auto simp: rd_def)
  have "sound p t (first_part e d rs ?k) (concat (replicate k (copies (i ! 1) (d ! 0) la)))"
  proof (rule first_part_sound [OF assms(6,3,4,2)])
    show "list_all (good_block p t) (concat (replicate k (copies (i ! 1) (d ! 0) la)))"
      if "part_ok p t (d ! 0) (Some True) la"
      by (rule list_all_concat_replicate [OF copies_part [OF that assms(2)]])
    show "sound p t (?k (type_size (d ! 0))) (concat (replicate k (copies (i ! 1) (d ! 0) la)))"
      if "combiner (d ! 0) = MPI_COMBINER_NAMED" "0 \<le> type_size (d ! 0)"
      using r one_block_sound [OF assms(1) that assms(7) list_all_concat_replicate] by simp
  qed
  then show ?thesis using r by (simp add: vector_case_def)
qed

lemma indexed_sound:
  assumes "0 < p" "0 < t" "length rs = length d" "part_ok p t (d ! 0) (rs ! 0) la"
    and "nat (i ! 0) < length i" "d \<noteq> []" "list_all (\<lambda>c. fits_int (d ! 0) (i ! (c + 1))) [0..<nat (i ! 0)]"
  shows "sound p t (indexed_case e p t i d rs)
    (concat (map (\<lambda>c. copies (i ! (c + 1)) (d ! 0) la) [0..<nat (i ! 0)]))"
proof -
  have r: "rd i 0 = Some (i ! 0)" using assms(5) by (cases i) (simp_all add: rd_def)
  have "sound p t (first_part e d rs (\<lambda>sz. check_blocks p t sz i 0 (nat (i ! 0))))
      (concat (map (\<lambda>c. copies (i ! (c + 1)) (d ! 0) la) [0..<nat (i ! 0)]))"
  proof (rule first_part_sound [OF assms(6,3,4,2)])
    assume "part_ok p t (d ! 0) (Some True) la"
    then have "list_all (good_block p t) (copies n (d ! 0) la)" for n by (rule copies_part [OF _ assms(2)])
    then show "list_all (good_block p t) (concat (map (\<lambda>c. copies (i ! (c + 1)) (d ! 0) la) [0..<nat (i ! 0)]))"
      by (auto simp: list_all_iff)
  next
    assume "combiner (d ! 0) = MPI_COMBINER_NAMED" "0 \<le> type_size (d ! 0)"
    then show "sound p t (check_blocks p t (type_size (d ! 0)) i 0 (nat (i ! 0)))
        (concat (map (\<lambda>c. copies (i ! (c + 1)) (d ! 0) la) [0..<nat (i ! 0)]))"
      using check_blocks_sound [OF assms(1), of "d ! 0" 0 "nat (i ! 0)" i t la] assms(5,7)
      by (simp add: list_all_iff)
  qed
  then show ?thesis using r by (simp add: indexed_case_def)
qed

lemma struct_sound:
  assumes "0 < p" "0 < t" "length rs = length d"
    and "\<And>j. j < length d \<Longrightarrow> part_ok p t (d ! j) (rs ! j) (lss ! j)"
    and "nat (i ! 0) < length i" "nat (i ! 0) \<le> length d"
    and "list_all (\<lambda>c. fits_int (d ! c) (i ! (c + 1))) [0..<nat (i ! 0)]"
  shows "sound p t (struct_case e p t i d rs)
    (concat (map (\<lambda>c. copies (i ! (c + 1)) (d ! c) (lss ! c)) [0..<nat (i ! 0)]))"
proof -
  have "rd i 0 = Some (i ! 0)" using assms(5) by (cases i) (simp_all add: rd_def)
  then show ?thesis
    using check_members_sound [OF assms(1-4), of 0 "nat (i ! 0)" i e] assms(5-7)
    by (simp add: struct_case_def list_all_iff)
qed

lemma subarray_sound:
  assumes "0 < p" "0 < t" "length rs = length d" "part_ok p t (d ! 0) (rs ! 0) la"
    and n0: "n0 = nat (i ! 0)" and i: "length i = 3 * n0 + 2" "0 \<le> i ! 0" and "d \<noteq> []"
    and fits: "list_all (\<lambda>c. fits_int (d ! 0) (i ! (n0 + 1 + c))) [0..<n0]"
    and inner: "n0 \<noteq> 0 \<Longrightarrow> inner = (if i ! (3 * n0 + 1) = MPI_ORDER_FORTRAN e \<and> i ! (3 * n0 + 1) \<noteq> MPI_ORDER_C e
      then i ! (n0 + 1) else i ! (2 * n0))"
  shows "sound p t (subarray_case e p t i d rs) (concat (replicate k (copies inner (d ! 0) la)))"
proof (cases "n0 = 0")
  case True
  then show ?thesis using i n0 by (simp add: subarray_case_def rd_def)
next
  case False
  have r: "rd i 0 = Some (i ! 0)" "rdi i (3 * i ! 0 + 1) = Some (i ! (3 * n0 + 1))"
    "rdi i (2 * i ! 0) = Some (i ! (2 * n0))" "rdi i (i ! 0 + 1) = Some (i ! (n0 + 1))"
    using i n0 by (simp_all add: rdi_def rd_def nat_add_distrib nat_mult_distrib)
  have f: "fits_int (d ! 0) (i ! (2 * n0))" "fits_int (d ! 0) (i ! (n0 + 1))"
  proof -
    have "n0 - 1 \<in> set [0..<n0]" "0 \<in> set [0..<n0]" using False by simp_all
    then have "fits_int (d ! 0) (i ! (n0 + 1 + (n0 - 1)))" "fits_int (d ! 0) (i ! (n0 + 1 + 0))"
      using fits unfolding list_all_iff by blast+
    moreover have "n0 + 1 + (n0 - 1) = 2 * n0" using False by simp
    ultimately show "fits_int (d ! 0) (i ! (2 * n0))" "fits_int (d ! 0) (i ! (n0 + 1))"
      by (simp_all only: add_0_right)
  qed
  have "sound p t (block_check p t (type_size (d ! 0)) n) (concat (replicate k (copies n (d ! 0) la)))"
    if "combiner (d ! 0) = MPI_COMBINER_NAMED" "0 \<le> type_size (d ! 0)" "fits_int (d ! 0) n" for n
    by (rule one_block_sound [OF assms(1) that list_all_concat_replicate])
  then have "sound p t (first_part e d rs (\<lambda>sz. do {
        order \<leftarrow> rdi i (3 * i ! 0 + 1);
        (if order = MPI_ORDER_C e then do {
           n \<leftarrow> rdi i (2 * i ! 0); block_check p t sz n }
         else if order = MPI_ORDER_FORTRAN e then do {
           n \<leftarrow> rdi i (i ! 0 + 1); block_check p t sz n }
         else Some False) })) (concat (replicate k (copies inner (d ! 0) la)))"
    using r f inner [OF False] assms(2)
    by (intro first_part_sound [OF \<open>d \<noteq> []\<close> assms(3,4,2)]) (auto intro: list_all_concat_replicate copies_part)
  then show ?thesis using r(1) False n0 by (auto simp: subarray_case_def)
qed

lemma node_sound:
  assumes "0 < p" "0 < t" "length rs = length (parts T)"
    and P: "\<And>j. j < length (parts T) \<Longrightarrow> part_ok p t (parts T ! j) (rs ! j) (lss ! j)"
    and wf: "node_wf T"
  shows "sound p t (directio_node e p t T rs) (node_blocks e T lss)"
proof (cases "envelope_ok e T \<and> (contents_ok e T \<or> combiner T = MPI_COMBINER_NAMED)")
  case False
  have "directio_node e p t T rs = Some False \<or>
      combiner T \<in> {Combiner_other n | n. True}"
    using False by (auto simp: directio_node_def split: combiner.splits)
  then show ?thesis using wf by (auto simp: node_wf_def)
next
  case True
  have P0: "parts T \<noteq> [] \<Longrightarrow> part_ok p t (parts T ! 0) (rs ! 0) (lss ! 0)" using P by simp
  show ?thesis
  proof (cases "combiner T")
    case MPI_COMBINER_NAMED
    then show ?thesis using True wf assms(1)
      by (auto simp: directio_node_def named_case_def node_blocks_def node_wf_def c_mod_def
          good_block_def smod_eq_0_iff)
  next
    case MPI_COMBINER_DUP
    then have "parts T \<noteq> []" using wf by (simp add: node_wf_def)
    then show ?thesis using MPI_COMBINER_DUP True P0 assms(3)
      by (auto simp: directio_node_def node_blocks_def rd_def part_ok_def)
  next
    case MPI_COMBINER_SUBARRAY
    let ?i = "ints T" and ?n = "nat (ints T ! 0)"
    have "last (map (\<lambda>c. ?i ! (?n + 1 + c)) [0..<?n]) = ?i ! (2 * ?n)" if "?n \<noteq> 0"
    proof -
      have "?n + 1 + (?n - 1) = 2 * ?n" using that by simp
      moreover have "last (map f [0..<?n]) = f (?n - 1)" for f :: "nat \<Rightarrow> int" using that by (simp add: last_map)
      ultimately show ?thesis by metis
    qed
    then show ?thesis using MPI_COMBINER_SUBARRAY True wf P0 assms(1-3)
      by (auto simp: directio_node_def node_blocks_def node_wf_def Let_def
          intro!: subarray_sound)
  qed (use True wf P0 P assms(1-3) in \<open>auto simp: directio_node_def node_blocks_def node_wf_def Let_def
      intro: contiguous_sound vector_sound [unfolded One_nat_def] indexed_sound [unfolded Suc_eq_plus1 [symmetric]]
        struct_sound [unfolded Suc_eq_plus1 [symmetric]]\<close>)
qed

lemma enable_directio_part:
  assumes "0 < p" "0 < t"
  shows "wf_type T \<Longrightarrow> part_ok p t T (enable_directio e p t T) (blocks e T)"
proof (induction T)
  case (Mpi_type h c i d sz)
  have P: "part_ok p t (d ! j) (enable_directio e p t (d ! j)) (blocks e (d ! j))" if "j < length d" for j
    using Mpi_type.IH [of "d ! j"] Mpi_type.prems that by (auto simp: list_all_iff)
  have "sound p t (enable_directio e p t (Mpi_type h c i d sz)) (blocks e (Mpi_type h c i d sz))"
    unfolding enable_directio.simps blocks.simps
    by (rule node_sound [OF assms]) (use P Mpi_type.prems in auto)
  then show ?case using Mpi_type.prems by (auto simp: part_ok_def node_blocks_def node_wf_def)
qed

section \<open>Properties\<close>

definition mpi_int :: mpi_type where
  "mpi_int = Mpi_type 2 MPI_COMBINER_NAMED [] [] 4"

definition mpi_byte :: mpi_type where
  "mpi_byte = Mpi_type 1 MPI_COMBINER_NAMED [] [] 1"

definition all_calls :: mpi_calls where
  "all_calls = \<lparr>envelope_ok = (\<lambda>_. True), contents_ok = (\<lambda>_. True), size_ok = (\<lambda>_. True),
     MPI_ORDER_C = 0, MPI_ORDER_FORTRAN = 1, MPI_DISTRIBUTE_NONE = 2, MPI_DISTRIBUTE_BLOCK = 0,
     MPI_DISTRIBUTE_DFLT_DARG = -1\<rparr>"

text \<open>C13: On every well-formed data type without a distributed array (at any depth)
  \<open>enable_directio\<close> reads no element outside its arrays and overflows no \<open>int\<close>, and when it
  answers yes every piece of the type is a multiple of the page size and not smaller than the
  threshold.\<close>

theorem enable_directio_sound:
  assumes "wf_type T" "0 < pagesize" "0 < threshold"
  shows "\<exists>b. enable_directio e pagesize threshold T = Some b \<and>
    (b \<longrightarrow> list_all (\<lambda>l. pagesize dvd l \<and> threshold \<le> l) (blocks e T))"
  using enable_directio_part [OF assms(2,3,1), of e]
  by (auto simp: part_ok_def good_block_def [abs_def] elim: soundE)

theorem enable_directio_sound_witness:
  "\<exists>b. enable_directio all_calls 4096 (512 * 1024)
      (Mpi_type 9 MPI_COMBINER_VECTOR [3, 131072, 200000] [mpi_int] 1572864) = Some b \<and>
    (b \<longrightarrow> list_all (\<lambda>l. 4096 dvd l \<and> 512 * 1024 \<le> l)
      (blocks all_calls (Mpi_type 9 MPI_COMBINER_VECTOR [3, 131072, 200000] [mpi_int] 1572864)))"
  by (rule enable_directio_sound) (simp_all add: node_wf_def mpi_int_def fits_int_def)

text \<open>The default block size of a distributed array is computed by a division that rounds
  down. MPI rounds up: of 1048577 bytes on two processes the first holds 524289, not a multiple of
  the page size, and still the buffer file is opened for direct I/O.\<close>

theorem enable_directio_darray_rounds_down:
  "enable_directio all_calls 4096 (512 * 1024)
     (Mpi_type 9 MPI_COMBINER_DARRAY [2, 0, 1, 1048577, 0, -1, 2, 0] [mpi_byte] 524289) = Some True \<and>
   \<not> (4096::int) dvd (1048577 + 2 - 1) div 2"
  by (simp add: directio_node_def darray_case_def first_part_def when_named_def named_case_def block_check_def all_calls_def
      mpi_byte_def rd_def rdi_def c_mod_def c_div_def i32_def smod_nonneg sdiv_nonneg)

text \<open>The block size is computed in C's \<open>int\<close>: a contiguous type of 536870912 four-byte
  integers is undefined. A combiner that the switch does not name is accepted whatever its
  blocks are.\<close>

theorem enable_directio_overflow_and_default:
  "enable_directio all_calls 4096 (512 * 1024)
     (Mpi_type 9 MPI_COMBINER_CONTIGUOUS [536870912] [mpi_int] 2147483648) = None \<and>
   enable_directio all_calls 4096 (512 * 1024) (Mpi_type 9 (Combiner_other n) [] [] 1) = Some True"
  by (simp add: directio_node_def contiguous_case_def first_part_def when_named_def named_case_def block_check_def all_calls_def
      mpi_int_def rd_def c_mod_def i32_def smod_nonneg)

end
