(* ===== verification/BBV_Handle.thy ===== *)
theory BBV_Handle
  imports BBV_View BBV_Xattr BBV_Directio
begin

text \<open>
  The state that the MPI file operations work on: the file handle of MPI (\<open>ompi_file_t\<close>) with its
  lock, the private data of this module behind it (\<open>mca_common_bbview_data_t\<close>,
  \<open>io_bbview.h\<close>), the handle of the ompio library inside that, and the part of the operating
  system that the operations change: local files, open descriptors, sockets and the
  messages sent to the daemon. The state of the ompio library is a type parameter and its functions
  are parameters of the operations.
\<close>

section \<open>State\<close>

text \<open>The fields of \<open>ompio_file_t\<close> that the sources read or write.\<close>

record ompio_file =
  ompio_filename :: string
  fd :: int
  f_amode :: "32 word"
  f_rank :: int
  f_fview :: fview
  f_atomicity :: int
  f_sharedfp :: bool               \<comment> \<open>is a shared file pointer module selected?\<close>
  f_split_coll_in_use :: bool
  f_split_coll_req :: nat

datatype bbview_state = BBVIEW_STATE_DEFAULT | BBVIEW_STATE_FALLBACK | BBVIEW_STATE_ACTIVE

text \<open>The enumeration is ordered by its C values.\<close>

fun state_value :: "bbview_state \<Rightarrow> nat" where
  "state_value BBVIEW_STATE_DEFAULT = 0"
| "state_value BBVIEW_STATE_FALLBACK = 1"
| "state_value BBVIEW_STATE_ACTIVE = 2"

instantiation bbview_state :: linorder
begin

definition less_eq_bbview_state :: "bbview_state \<Rightarrow> bbview_state \<Rightarrow> bool" where
  "less_eq_bbview_state a b \<longleftrightarrow> state_value a \<le> state_value b"

definition less_bbview_state :: "bbview_state \<Rightarrow> bbview_state \<Rightarrow> bool" where
  "less_bbview_state a b \<longleftrightarrow> state_value a < state_value b"

instance
proof
  fix x y :: bbview_state
  show "x \<le> y \<Longrightarrow> y \<le> x \<Longrightarrow> x = y"
    by (cases x; cases y) (simp_all add: less_eq_bbview_state_def)
qed (auto simp: less_eq_bbview_state_def less_bbview_state_def)

end

record bbview_data =
  ompio_fh :: ompio_file
  state :: bbview_state
  view_index :: "64 word"
  data_disp :: "64 word"           \<comment> \<open>\<open>saved_disp\<close>\<close>
  data_dt_buf :: "string option"   \<comment> \<open>\<open>saved_dt_buf\<close>, with \<open>None\<close> the null pointer\<close>
  saved_dt_len :: nat
  data_et_buf :: "string option"
  saved_et_len :: nat
  saved_datarep :: "string option"
  saved_etype :: "mpi_type option"
  saved_filetype :: "mpi_type option"

datatype data_ptr = Null_ptr | Live bbview_data | Dangling

record ompi_file =
  f_filename :: string
  f_comm_rank :: nat
  f_lock :: bool                   \<comment> \<open>is the lock held?\<close>
  f_is_open :: bool                \<comment> \<open>\<open>OMPIO_FILE_IS_OPEN\<close> in \<open>f_flags\<close>\<close>
  f_io_selected_data :: data_ptr

record 'x sys =
  hd_file :: ompi_file
  files :: fs
  open_fds :: "int \<Rightarrow> (string \<times> bool) option"   \<comment> \<open>path, and whether \<open>O_DIRECT\<close> is set\<close>
  sockets :: nat                   \<comment> \<open>open connections to the daemon\<close>
  sent :: "string list"            \<comment> \<open>what was written to each connection\<close>
  lib :: 'x

text \<open>A call of the ompio library on the handle inside the private data.\<close>

type_synonym 'x lib_call = "ompio_file \<Rightarrow> 'x \<Rightarrow> rc \<times> ompio_file \<times> 'x"

text \<open>
  What the operations rely on: the MPI type functions, the operating system's decisions, and the
  library. \<open>sock_write\<close> is the number of bytes that \<open>write\<close> accepts, or an error.
\<close>

record 'x env =
  mpi :: mpi_calls
  pack_description_length :: "mpi_type \<Rightarrow> nat"
  get_pack_description :: "mpi_type \<Rightarrow> rc \<times> string"
  type_extent :: "mpi_type \<Rightarrow> rc"
  is_predefined :: "mpi_type \<Rightarrow> bool"
  type_duplicate :: "mpi_type \<Rightarrow> rc \<times> mpi_type"
  tmp_dir :: string
  displacement_current :: "64 word"
  mode_sequential :: "32 word"
  mode_rdonly :: "32 word"
  cstring_to_bool :: "string \<Rightarrow> bool option"
  realpath :: "'x sys \<Rightarrow> string \<Rightarrow> string option"
  xattr_accepts :: "string \<Rightarrow> string \<Rightarrow> string \<Rightarrow> bool"
  open_permitted :: "'x sys \<Rightarrow> string \<Rightarrow> bool"
  new_fd :: "(int \<Rightarrow> (string \<times> bool) option) \<Rightarrow> int"
  socket_ok :: "'x sys \<Rightarrow> bool"
  connect_ok :: "'x sys \<Rightarrow> bool"
  sock_write :: "'x sys \<Rightarrow> string \<Rightarrow> nat option"
  common_set_view :: "64 word \<Rightarrow> mpi_type \<Rightarrow> mpi_type \<Rightarrow> string \<Rightarrow> 'x lib_call"
  common_file_open :: "string \<Rightarrow> 32 word \<Rightarrow> 'x lib_call"
  common_file_close :: "'x lib_call"

section \<open>The lock and the private data\<close>

text \<open>
  The lock is not recursive: to take it twice, or to release it when it is not held, is
  undefined. So is any access through a null or freed pointer.
\<close>

definition lock :: "'x sys \<Rightarrow> 'x sys option" where
  "lock s = (if f_lock (hd_file s) then None else Some (s\<lparr>hd_file := (hd_file s)\<lparr>f_lock := True\<rparr>\<rparr>))"

definition unlock :: "'x sys \<Rightarrow> 'x sys option" where
  "unlock s = (if f_lock (hd_file s) then Some (s\<lparr>hd_file := (hd_file s)\<lparr>f_lock := False\<rparr>\<rparr>) else None)"

definition unlock_return :: "'r \<Rightarrow> 'x sys \<Rightarrow> ('r \<times> 'x sys) option" where
  "unlock_return ret s = do { s' \<leftarrow> unlock s; Some (ret, s') }"

definition data_of :: "'x sys \<Rightarrow> bbview_data option" where
  "data_of s = (case f_io_selected_data (hd_file s) of Live d \<Rightarrow> Some d | _ \<Rightarrow> None)"

definition put_data :: "bbview_data \<Rightarrow> 'x sys \<Rightarrow> 'x sys" where
  "put_data d s = s\<lparr>hd_file := (hd_file s)\<lparr>f_io_selected_data := Live d\<rparr>\<rparr>"

definition call_lib :: "'x lib_call \<Rightarrow> 'x sys \<Rightarrow> (rc \<times> 'x sys) option" where
  "call_lib f s = do {
     d \<leftarrow> data_of s;
     let (ret, fh, l) = f (ompio_fh d) (lib s);
     Some (ret, put_data (d\<lparr>ompio_fh := fh\<rparr>) (s\<lparr>lib := l\<rparr>)) }"

text \<open>The shape of most operations: lock, one call of the library, unlock.\<close>

definition locked_call :: "'x lib_call \<Rightarrow> 'x sys \<Rightarrow> (rc \<times> 'x sys) option" where
  "locked_call f s = do {
     s1 \<leftarrow> lock s;
     (ret, s2) \<leftarrow> call_lib f s1;
     unlock_return ret s2 }"

section \<open>Files and descriptors\<close>

text \<open>
  \<open>open (path, O_RDWR [| O_CREAT | O_TRUNC])\<close>: truncation keeps the extended attributes. The
  result is the descriptor, or -1.
\<close>

definition sys_open :: "'x env \<Rightarrow> string \<Rightarrow> bool \<Rightarrow> bool \<Rightarrow> 'x sys \<Rightarrow> int \<times> 'x sys" where
  "sys_open env path creat_trunc direct s =
     (if \<not> open_permitted env s path \<or> (\<not> creat_trunc \<and> files s path = None) then (-1, s)
      else
        (let n = new_fd env (open_fds s);
             f = (case files s path of None \<Rightarrow> \<lparr>content = [], attrs = Map.empty\<rparr>
                    | Some f \<Rightarrow> if creat_trunc then f\<lparr>content := []\<rparr> else f)
         in (n, s\<lparr>files := (files s)(path \<mapsto> f), open_fds := (open_fds s)(n \<mapsto> (path, direct))\<rparr>)))"

text \<open>The sources ignore what \<open>close\<close> returns; closing a descriptor that is not open does nothing.\<close>

definition sys_close :: "int \<Rightarrow> 'x sys \<Rightarrow> 'x sys" where
  "sys_close n s = s\<lparr>open_fds := (open_fds s)(n := None)\<rparr>"

section \<open>Facts\<close>

definition unlocked :: "'x sys \<Rightarrow> bool" where
  "unlocked s \<longleftrightarrow> \<not> f_lock (hd_file s)"

text \<open>Everything in the private data but the handle of the ompio library.\<close>

definition view_part ::
  "bbview_data \<Rightarrow> bbview_state \<times> 64 word \<times> 64 word \<times> (string option \<times> nat) \<times> (string option \<times> nat) \<times>
     string option \<times> mpi_type option \<times> mpi_type option" where
  "view_part d = (state d, view_index d, data_disp d, (data_dt_buf d, saved_dt_len d), (data_et_buf d, saved_et_len d),
     saved_datarep d, saved_etype d, saved_filetype d)"

lemma view_part_fh [simp]: "view_part (d\<lparr>ompio_fh := x\<rparr>) = view_part d"
  by (simp add: view_part_def)

lemma data_of_put [simp]: "data_of (put_data d s) = Some d"
  by (simp add: data_of_def put_data_def)

lemma data_of_cong:
  "f_io_selected_data (hd_file s) = f_io_selected_data (hd_file t) \<Longrightarrow> data_of s = data_of t"
  by (simp add: data_of_def)

lemma lock_eq_Some_iff: "lock s = Some t \<longleftrightarrow> unlocked s \<and> t = s\<lparr>hd_file := (hd_file s)\<lparr>f_lock := True\<rparr>\<rparr>"
  by (auto simp: lock_def unlocked_def)

lemma lock_unlocked: "unlocked s \<Longrightarrow> lock s = Some (s\<lparr>hd_file := (hd_file s)\<lparr>f_lock := True\<rparr>\<rparr>)"
  by (simp add: lock_def unlocked_def)

lemma unlock_return_Some_iff:
  "unlock_return r s = Some (ret, t) \<longleftrightarrow>
     r = ret \<and> f_lock (hd_file s) \<and> t = s\<lparr>hd_file := (hd_file s)\<lparr>f_lock := False\<rparr>\<rparr>"
  by (auto simp: unlock_return_def unlock_def)

lemma unlock_return_held:
  "f_lock (hd_file s) \<Longrightarrow> unlock_return r s = Some (r, s\<lparr>hd_file := (hd_file s)\<lparr>f_lock := False\<rparr>\<rparr>)"
  by (simp add: unlock_return_def unlock_def)

lemmas handle_simps = data_of_def put_data_def call_lib_def lock_def unlock_def unlock_return_def unlocked_def
  sys_close_def Let_def

end
