(* ===== verification/BBV_SetView.thy ===== *)
theory BBV_SetView
  imports BBV_Handle
begin

text \<open>
  Setting, flushing and reading back a view: \<open>mca_io_bbview_file_flush\<close>
  (\<open>io_bbview_file_flush.c\<close>), \<open>datatype_duplicate\<close>, \<open>mca_io_bbview_file_set_view\<close> and
  \<open>mca_io_bbview_file_get_view\<close> (\<open>io_bbview_file_set_view.c\<close>), and the opening and closing
  of a file (\<open>io_bbview_file_open.c\<close>), with the state machine DEFAULT, ACTIVE, FALLBACK that they
  drive.
\<close>

section \<open>Flush\<close>

text \<open>
  What \<open>set_xattrs_for_bbview\<close> reads from the private data, and the description that it stores
  when the recorded lengths lie within the buffers.
\<close>

definition saved_view_of :: "bbview_data \<Rightarrow> saved_view" where
  "saved_view_of d = \<lparr>sv_disp = data_disp d, sv_dt_buf = data_dt_buf d, sv_dt_len = saved_dt_len d,
     sv_et_buf = data_et_buf d, sv_et_len = saved_et_len d\<rparr>"

definition desc_of :: "bbview_data \<Rightarrow> view_desc option" where
  "desc_of d = saved_desc (saved_view_of d)"

lemma desc_of_eq: "desc_of d = do {
     dt \<leftarrow> user_bytes (data_dt_buf d) 0 (saved_dt_len d);
     et \<leftarrow> user_bytes (data_et_buf d) 0 (saved_et_len d);
     Some \<lparr>saved_disp = data_disp d, saved_dt_buf = dt, saved_et_buf = et\<rparr> }"
  by (simp add: desc_of_def saved_desc_def saved_view_of_def)

definition buffer_name :: "'x env \<Rightarrow> 'x sys \<Rightarrow> 64 word \<Rightarrow> string" where
  "buffer_name env s v = local_filename (tmp_dir env) (f_filename (hd_file s)) (f_comm_rank (hd_file s)) v"

text \<open>Lines 129--153: the name of the buffer file goes to the daemon, the socket is closed.\<close>

definition send_path :: "'x env \<Rightarrow> string \<Rightarrow> 'x sys \<Rightarrow> rc \<times> 'x sys" where
  "send_path env name s =
     (if \<not> socket_ok env s then (OMPI_ERROR, s)
      else
        (let s1 = s\<lparr>sockets := sockets s + 1\<rparr> in
         if \<not> connect_ok env s1 then (OMPI_ERROR, s1\<lparr>sockets := sockets s1 - 1\<rparr>)
         else
           (let n = sock_write env s1 name;
                s2 = (case n of None \<Rightarrow> s1 | Some k \<Rightarrow> s1\<lparr>sent := sent s1 @ [take k name]\<rparr>)
            in (if n \<noteq> Some (length name) then OMPI_ERROR else OMPI_SUCCESS,
                s2\<lparr>sockets := sockets s2 - 1\<rparr>))))"

definition mca_io_bbview_file_flush :: "'x env \<Rightarrow> 'x sys \<Rightarrow> (rc \<times> 'x sys) option" where
  "mca_io_bbview_file_flush env s = do {
     data \<leftarrow> data_of s;
     (if state data \<noteq> BBVIEW_STATE_ACTIVE then Some (OMPI_SUCCESS, s)
      else do {
        let name = buffer_name env s (view_index data);
        (ok, m) \<leftarrow> set_xattrs_for_bbview (setxattr (xattr_accepts env) name)
              (realpath env s (ompio_filename (ompio_fh data))) (saved_view_of data) (files s);
        let s1 = s\<lparr>files := m\<rparr>;
        (if \<not> ok then Some (OMPI_ERROR, s1) else Some (send_path env name s1)) }) }"

section \<open>Set view\<close>

text \<open>Lines 374--391: the byte view from offset 0 ends the buffering of the current view.\<close>

definition set_byte_view ::
  "'x env \<Rightarrow> 64 word \<Rightarrow> mpi_type \<Rightarrow> mpi_type \<Rightarrow> string \<Rightarrow> 'x sys \<Rightarrow> (rc \<times> 'x sys) option" where
  "set_byte_view env disp etype filetype datarep s = do {
     data \<leftarrow> data_of s;
     (ret, s1) \<leftarrow> (if state data = BBVIEW_STATE_ACTIVE then mca_io_bbview_file_flush env s
                   else Some (OMPI_SUCCESS, s));
     (if ret \<noteq> OMPI_SUCCESS then unlock_return ret s1
      else do {
        data1 \<leftarrow> data_of s1;
        let s2 = (if state data = BBVIEW_STATE_ACTIVE then
              (let (n, s') = sys_open env (f_filename (hd_file s1)) False False (sys_close (fd (ompio_fh data1)) s1)
               in put_data (data1\<lparr>saved_datarep := None, ompio_fh := (ompio_fh data1)\<lparr>fd := n\<rparr>\<rparr>) s')
            else s1);
        data2 \<leftarrow> data_of s2;
        let s3 = (if state data2 \<noteq> BBVIEW_STATE_FALLBACK then
              put_data (data2\<lparr>state := BBVIEW_STATE_DEFAULT\<rparr>) s2 else s2);
        (ret, s4) \<leftarrow> call_lib (common_set_view env disp etype filetype datarep) s3;
        unlock_return ret s4 }) }"

text \<open>
  Lines 415--432: one packed description, saved with its length. The length is stored before the
  description is fetched, so on failure it belongs to no buffer. \<open>memcpy\<close> reads as many bytes
  as the length says.
\<close>

definition save_filetype :: "'x env \<Rightarrow> mpi_type \<Rightarrow> bbview_data \<Rightarrow> (rc \<times> bbview_data) option" where
  "save_filetype env filetype d =
     (let len = pack_description_length env filetype;
          d1 = d\<lparr>saved_dt_len := len\<rparr>;
          (ret, b) = get_pack_description env filetype
      in if ret \<noteq> OMPI_SUCCESS then Some (ret, d1)
         else if len \<le> length b then Some (OMPI_SUCCESS, d1\<lparr>data_dt_buf := Some (take len b)\<rparr>)
         else None)"

definition save_etype :: "'x env \<Rightarrow> mpi_type \<Rightarrow> bbview_data \<Rightarrow> (rc \<times> bbview_data) option" where
  "save_etype env etype d =
     (let len = pack_description_length env etype;
          d1 = d\<lparr>saved_et_len := len\<rparr>;
          (ret, b) = get_pack_description env etype
      in if ret \<noteq> OMPI_SUCCESS then Some (ret, d1)
         else if len \<le> length b then Some (OMPI_SUCCESS, d1\<lparr>data_et_buf := Some (take len b)\<rparr>)
         else None)"

text \<open>Lines 447--462: direct I/O by the data type, unless the info object has the key.\<close>

definition use_o_direct :: "'x env \<Rightarrow> mpi_type \<Rightarrow> (string \<Rightarrow> string option) option \<Rightarrow> bool option" where
  "use_o_direct env filetype info = do {
     dio \<leftarrow> enable_directio (mpi env) 4096 (512 * 1024) filetype;
     Some (case info of
        None \<Rightarrow> dio
      | Some get \<Rightarrow>
          (case get ''direct_io'' of
             None \<Rightarrow> dio
           | Some buf \<Rightarrow> (case cstring_to_bool env buf of Some b \<Rightarrow> b | None \<Rightarrow> False))) }"

text \<open>Lines 440--478: the buffer file takes the place of the destination.\<close>

definition open_buffer_file ::
  "'x env \<Rightarrow> mpi_type \<Rightarrow> mpi_type \<Rightarrow> string \<Rightarrow> (string \<Rightarrow> string option) option \<Rightarrow> 'x sys \<Rightarrow> (rc \<times> 'x sys) option" where
  "open_buffer_file env etype filetype datarep info s = do {
     data \<leftarrow> data_of s;
     let s1 = sys_close (fd (ompio_fh data)) s;
     let name = buffer_name env s1 (view_index data);
     direct \<leftarrow> use_o_direct env filetype info;
     let (n, s2) = sys_open env name True direct s1;
     let s3 = put_data (data\<lparr>ompio_fh := (ompio_fh data)\<lparr>fd := n\<rparr>\<rparr>) s2;
     (if n < 0 then unlock_return OMPI_ERROR s3
      else do {
        (ret, s4) \<leftarrow> call_lib (common_set_view env 0 etype etype datarep) s3;
        unlock_return ret s4 }) }"

text \<open>Lines 407--438, after the flush of the previous view.\<close>

definition activate_view ::
  "'x env \<Rightarrow> 64 word \<Rightarrow> mpi_type \<Rightarrow> mpi_type \<Rightarrow> string \<Rightarrow> (string \<Rightarrow> string option) option \<Rightarrow> 'x sys \<Rightarrow>
   (rc \<times> 'x sys) option" where
  "activate_view env disp etype filetype datarep info s = do {
     data \<leftarrow> data_of s;
     let d1 = data\<lparr>state := BBVIEW_STATE_ACTIVE, view_index := view_index data + 1,
                saved_datarep := Some datarep, saved_etype := Some etype,
                saved_filetype := Some filetype, data_disp := disp\<rparr>;
     (ret, d2) \<leftarrow> save_filetype env filetype d1;
     (if ret \<noteq> OMPI_SUCCESS then unlock_return ret (put_data d2 s)
      else do {
        (ret, d3) \<leftarrow> save_etype env etype d2;
        (if ret \<noteq> OMPI_SUCCESS then unlock_return ret (put_data d3 s)
         else if type_extent env filetype \<noteq> OMPI_SUCCESS then
           unlock_return (type_extent env filetype) (put_data d3 s)
         else open_buffer_file env etype filetype datarep info (put_data d3 s)) }) }"

text \<open>Lines 374--405, with the lock held: the byte view, a file in fallback, or a new view.\<close>

definition set_view_locked ::
  "'x env \<Rightarrow> 64 word \<Rightarrow> mpi_type \<Rightarrow> mpi_type \<Rightarrow> string \<Rightarrow> (string \<Rightarrow> string option) option \<Rightarrow> 'x sys \<Rightarrow>
   (rc \<times> 'x sys) option" where
  "set_view_locked env disp etype filetype datarep info s =
     (if disp = 0 \<and> handle etype = handle mpi_byte \<and> handle filetype = handle mpi_byte
      then set_byte_view env disp etype filetype datarep s
      else do {
        data \<leftarrow> data_of s;
        (case state data of
           BBVIEW_STATE_FALLBACK \<Rightarrow> do {
             (ret, s1) \<leftarrow> call_lib (common_set_view env disp etype filetype datarep) s;
             unlock_return ret s1 }
         | BBVIEW_STATE_ACTIVE \<Rightarrow> do {
             (ret, s1) \<leftarrow> mca_io_bbview_file_flush env s;
             (if ret \<noteq> OMPI_SUCCESS then unlock_return ret s1
              else do {
                data1 \<leftarrow> data_of s1;
                activate_view env disp etype filetype datarep info
                  (put_data (data1\<lparr>saved_datarep := None\<rparr>) s1) }) }
         | BBVIEW_STATE_DEFAULT \<Rightarrow> activate_view env disp etype filetype datarep info s) })"

definition mca_io_bbview_file_set_view ::
  "'x env \<Rightarrow> 64 word \<Rightarrow> mpi_type \<Rightarrow> mpi_type \<Rightarrow> string option \<Rightarrow> (string \<Rightarrow> string option) option \<Rightarrow> 'x sys \<Rightarrow>
   (rc \<times> 'x sys) option" where
  "mca_io_bbview_file_set_view env disp etype filetype datarep_ptr info s = do {
     datarep \<leftarrow> datarep_ptr;
     (if datarep \<noteq> ''native'' \<and> datarep \<noteq> ''NATIVE'' then Some (MPI_ERR_UNSUPPORTED_DATAREP, s)
      else do {
        data \<leftarrow> data_of s;
        (if disp = displacement_current env \<and> and (f_amode (ompio_fh data)) (mode_sequential env) = 0
         then Some (MPI_ERR_DISP, s)
         else do {
           s1 \<leftarrow> lock s;
           set_view_locked env disp etype filetype datarep info s1 }) }) }"

section \<open>Get view\<close>

text \<open>
  The duplicate, and whether \<open>*newtype\<close> is set. Reference counts are not part of the model.
\<close>

definition datatype_duplicate :: "'x env \<Rightarrow> mpi_type \<Rightarrow> rc \<times> mpi_type option" where
  "datatype_duplicate env oldtype =
     (if is_predefined env oldtype then (OMPI_SUCCESS, Some oldtype)
      else
        (let (ret, type) = type_duplicate env oldtype in
         if ret \<noteq> OMPI_SUCCESS then (MPI_ERR_INTERN, None)
         else (OMPI_SUCCESS, Some (Mpi_type (handle type) MPI_COMBINER_DUP [] [oldtype] (type_size type)))))"

text \<open>
  The results of the duplications are ignored; a null type or a null \<open>saved_datarep\<close> is
  dereferenced. The outcome lists what the four output arguments point to.
\<close>

definition mca_io_bbview_file_get_view ::
  "'x env \<Rightarrow> 'x sys \<Rightarrow> ((rc \<times> 64 word \<times> mpi_type option \<times> mpi_type option \<times> string) \<times> 'x sys) option" where
  "mca_io_bbview_file_get_view env s = do {
     s1 \<leftarrow> lock s;
     data \<leftarrow> data_of s1;
     etype \<leftarrow> saved_etype data;
     filetype \<leftarrow> saved_filetype data;
     datarep \<leftarrow> saved_datarep data;
     unlock_return (OMPI_SUCCESS, data_disp data, snd (datatype_duplicate env etype),
       snd (datatype_duplicate env filetype), datarep) s1 }"

section \<open>Open and close\<close>

definition mca_io_bbview_file_open ::
  "'x env \<Rightarrow> string \<Rightarrow> 32 word \<Rightarrow> 'x sys \<Rightarrow> (rc \<times> 'x sys) option" where
  "mca_io_bbview_file_open env filename amode s =
     (if f_io_selected_data (hd_file s) = Null_ptr then Some (OMPI_ERR_OUT_OF_RESOURCE, s)
      else do {
        (ret, s1) \<leftarrow> call_lib (common_file_open env filename amode) s;
        Some (ret, if ret = OMPI_SUCCESS then s1\<lparr>hd_file := (hd_file s1)\<lparr>f_is_open := True\<rparr>\<rparr> else s1) })"

definition mca_io_bbview_file_close :: "'x env \<Rightarrow> 'x sys \<Rightarrow> (rc \<times> 'x sys) option" where
  "mca_io_bbview_file_close env s =
     (if f_io_selected_data (hd_file s) = Null_ptr then Some (OMPI_SUCCESS, s)
      else do {
        data \<leftarrow> data_of s;
        (ret, s1) \<leftarrow> (if view_index data \<noteq> 0 then do {
            s1 \<leftarrow> lock s;
            (ret, s2) \<leftarrow> mca_io_bbview_file_flush env s1;
            unlock_return ret s2 } else Some (OMPI_SUCCESS, s));
        (if ret \<noteq> OMPI_SUCCESS then Some (ret, s1)
         else do {
           (ret, s2) \<leftarrow> call_lib (common_file_close env) s1;
           Some (ret, s2\<lparr>hd_file := (hd_file s2)\<lparr>f_io_selected_data := Dangling\<rparr>\<rparr>) }) })"

section \<open>Effects on the handle\<close>

lemma sys_open_handle [simp]: "hd_file (snd (sys_open env path c d s)) = hd_file s"
  by (auto simp: sys_open_def Let_def)

lemma sys_close_handle [simp]: "hd_file (sys_close n s) = hd_file s"
  by (simp add: sys_close_def)

lemma data_of_open [simp]: "data_of (snd (sys_open env path c d s)) = data_of s"
  by (simp add: data_of_def)

lemma data_of_close [simp]: "data_of (sys_close n s) = data_of s"
  by (simp add: data_of_def)

lemma send_path_handle [simp]: "hd_file (snd (send_path env name s)) = hd_file s"
  by (auto simp: send_path_def Let_def split: option.split)

lemma send_path_sockets: "sockets (snd (send_path env name s)) = sockets s"
  by (auto simp: send_path_def Let_def split: option.split)

lemma send_path_files [simp]: "files (snd (send_path env name s)) = files s"
  by (auto simp: send_path_def Let_def split: option.split)

lemma send_path_ok: "send_path env name s = (OMPI_SUCCESS, t) \<Longrightarrow> t = s\<lparr>sent := sent s @ [name]\<rparr>"
  by (auto simp: send_path_def Let_def split: if_splits option.splits)

lemma flush_cases:
  assumes "mca_io_bbview_file_flush env s = Some (ret, t)"
  obtains (idle) data where "data_of s = Some data" "state data \<noteq> BBVIEW_STATE_ACTIVE" "ret = OMPI_SUCCESS" "t = s"
  | (attrs) data m where "data_of s = Some data" "state data = BBVIEW_STATE_ACTIVE"
      "set_xattrs_for_bbview (setxattr (xattr_accepts env) (buffer_name env s (view_index data)))
         (realpath env s (ompio_filename (ompio_fh data))) (saved_view_of data) (files s) = Some (False, m)"
      "ret = OMPI_ERROR" "t = s\<lparr>files := m\<rparr>"
  | (send) data m where "data_of s = Some data" "state data = BBVIEW_STATE_ACTIVE"
      "set_xattrs_for_bbview (setxattr (xattr_accepts env) (buffer_name env s (view_index data)))
         (realpath env s (ompio_filename (ompio_fh data))) (saved_view_of data) (files s) = Some (True, m)"
      "(ret, t) = send_path env (buffer_name env s (view_index data)) (s\<lparr>files := m\<rparr>)"
proof -
  obtain data where d: "data_of s = Some data"
    using assms by (cases "data_of s") (simp_all add: mca_io_bbview_file_flush_def)
  let ?name = "buffer_name env s (view_index data)" and ?rp = "realpath env s (ompio_filename (ompio_fh data))"
  show ?thesis
  proof (cases "state data = BBVIEW_STATE_ACTIVE")
    case False
    have "ret = OMPI_SUCCESS" "t = s" using assms d False by (simp_all add: mca_io_bbview_file_flush_def)
    then show ?thesis by (rule idle [OF d False])
  next
    case act: True
    obtain ok m where m: "set_xattrs_for_bbview (setxattr (xattr_accepts env) ?name) ?rp (saved_view_of data) (files s) =
        Some (ok, m)"
      using assms d act by (auto simp: mca_io_bbview_file_flush_def bind_eq_Some_conv Let_def)
    show ?thesis
    proof (cases ok)
      case False
      have "ret = OMPI_ERROR" "t = s\<lparr>files := m\<rparr>"
        using assms d act m False by (simp_all add: mca_io_bbview_file_flush_def)
      then show ?thesis using m False attrs [OF d act, of m] by simp
    next
      case True
      have "(ret, t) = send_path env ?name (s\<lparr>files := m\<rparr>)"
        using assms d act m True by (simp add: mca_io_bbview_file_flush_def)
      then show ?thesis using m True send [OF d act, of m] by simp
    qed
  qed
qed

text \<open>Without its buffer file a flush fails and leaves everything as it is.\<close>

lemma flush_missing:
  assumes "data_of s = Some d" "state d = BBVIEW_STATE_ACTIVE"
    and "files s (buffer_name env s (view_index d)) = None"
  shows "mca_io_bbview_file_flush env s = Some (OMPI_ERROR, s)"
  using assms by (simp add: mca_io_bbview_file_flush_def set_xattrs_missing)

lemma flush_handle: "mca_io_bbview_file_flush env s = Some (ret, t) \<Longrightarrow> hd_file t = hd_file s"
  by (erule flush_cases) (simp_all, metis send_path_handle snd_conv sys.select_convs(1) sys.surjective sys.update_convs(2))

lemma flush_data: "mca_io_bbview_file_flush env s = Some (ret, t) \<Longrightarrow> data_of t = data_of s"
  by (drule flush_handle) (simp add: data_of_def)

lemma flush_sockets: "mca_io_bbview_file_flush env s = Some (ret, t) \<Longrightarrow> sockets t = sockets s"
  by (erule flush_cases) (simp_all, metis send_path_sockets snd_conv sys.select_convs(4) sys.surjective sys.update_convs(2))

lemma flush_fds: "mca_io_bbview_file_flush env s = Some (ret, t) \<Longrightarrow> open_fds t = open_fds s"
  by (erule flush_cases) (auto simp: send_path_def Let_def split: if_splits option.splits)

lemma flush_lib: "mca_io_bbview_file_flush env s = Some (ret, t) \<Longrightarrow> lib t = lib s"
  by (erule flush_cases) (auto simp: send_path_def Let_def split: if_splits option.splits)

lemma flush_sent:
  assumes "mca_io_bbview_file_flush env s = Some (OMPI_SUCCESS, t)" "data_of s = Some d"
    and "state d = BBVIEW_STATE_ACTIVE"
  shows "sent t = sent s @ [buffer_name env s (view_index d)]"
  using assms(1)
proof (cases rule: flush_cases)
  case (send data m)
  then have "send_path env (buffer_name env s (view_index d)) (s\<lparr>files := m\<rparr>) = (OMPI_SUCCESS, t)"
    using assms(2) by simp
  from send_path_ok [OF this] show ?thesis by simp
qed (use assms(2,3) in simp_all)

lemma flush_contents:
  assumes "mca_io_bbview_file_flush env s = Some (ret, t)"
  shows "contents (files t) = contents (files s)"
  using assms
proof (cases rule: flush_cases)
  case (attrs data m)
  then show ?thesis using set_xattrs_contents [OF attrs(3)] by simp
next
  case (send data m)
  then have "files t = m"
    by (metis send_path_files snd_conv sys.select_convs(2) sys.surjective sys.update_convs(2))
  then show ?thesis using set_xattrs_contents [OF send(3)] by simp
qed simp

section \<open>The state machine of views\<close>

text \<open>
  The abstract machine: the state and the number of views so far. \<open>FALLBACK\<close> is never left,
  the view number grows exactly when a view is buffered.
\<close>

inductive view_step :: "bbview_state \<times> 64 word \<Rightarrow> bbview_state \<times> 64 word \<Rightarrow> bool" where
  stay: "view_step a a"
| buffer: "st \<noteq> BBVIEW_STATE_FALLBACK \<Longrightarrow> view_step (st, n) (BBVIEW_STATE_ACTIVE, n + 1)"
| unbuffer: "st \<noteq> BBVIEW_STATE_FALLBACK \<Longrightarrow> view_step (st, n) (BBVIEW_STATE_DEFAULT, n)"
| fall_back: "st \<noteq> BBVIEW_STATE_ACTIVE \<Longrightarrow> view_step (st, n) (BBVIEW_STATE_FALLBACK, n)"

inductive_cases view_stepE: "view_step (st, n) b"
inductive_simps view_step_fallback: "view_step (BBVIEW_STATE_FALLBACK, n) b"

definition view_abs :: "bbview_data \<Rightarrow> bbview_state \<times> 64 word" where
  "view_abs d = (state d, view_index d)"

definition view_abs_of :: "'x sys \<Rightarrow> (bbview_state \<times> 64 word) option" where
  "view_abs_of s = map_option view_abs (data_of s)"

lemma view_abs_update [simp]:
  "view_abs (d\<lparr>ompio_fh := x\<rparr>) = view_abs d" "view_abs (d\<lparr>saved_datarep := y\<rparr>) = view_abs d"
  "view_abs (d\<lparr>saved_dt_len := l\<rparr>) = view_abs d" "view_abs (d\<lparr>data_dt_buf := b\<rparr>) = view_abs d"
  "view_abs (d\<lparr>saved_et_len := l\<rparr>) = view_abs d" "view_abs (d\<lparr>data_et_buf := b\<rparr>) = view_abs d"
  by (simp_all add: view_abs_def)

lemma call_lib_Some:
  assumes "call_lib f s = Some (ret, t)"
  obtains d fh l where "data_of s = Some d" "f (ompio_fh d) (lib s) = (ret, fh, l)"
    "t = put_data (d\<lparr>ompio_fh := fh\<rparr>) (s\<lparr>lib := l\<rparr>)"
proof -
  obtain d where d: "data_of s = Some d" using assms by (auto simp: call_lib_def bind_eq_Some_conv)
  obtain r fh l where "f (ompio_fh d) (lib s) = (r, fh, l)" by (cases "f (ompio_fh d) (lib s)") auto
  then show ?thesis using that assms d by (simp add: call_lib_def)
qed

lemma call_lib_abs: "call_lib f s = Some (ret, t) \<Longrightarrow> view_abs_of t = view_abs_of s \<and> f_lock (hd_file t) = f_lock (hd_file s)"
  by (erule call_lib_Some) (simp add: view_abs_of_def put_data_def data_of_def)

lemma unlock_return_abs:
  "unlock_return r s = Some (ret, t) \<Longrightarrow> view_abs_of t = view_abs_of s \<and> unlocked t \<and> r = ret"
  by (auto simp: unlock_return_Some_iff view_abs_of_def data_of_def unlocked_def)

lemma lock_abs: "lock s = Some t \<Longrightarrow> view_abs_of t = view_abs_of s \<and> unlocked s \<and> data_of t = data_of s"
  by (auto simp: lock_eq_Some_iff view_abs_of_def data_of_def)

lemma flush_abs: "mca_io_bbview_file_flush env s = Some (ret, t) \<Longrightarrow> view_abs_of t = view_abs_of s"
  by (drule flush_data) (simp add: view_abs_of_def)

lemma save_abs:
  "save_filetype env x d = Some (ret, d') \<Longrightarrow> view_abs d' = view_abs d"
  "save_etype env x d = Some (ret, d') \<Longrightarrow> view_abs d' = view_abs d"
  by (auto simp: save_filetype_def save_etype_def Let_def split: prod.splits if_splits)

lemma view_abs_of_put [simp]: "view_abs_of (put_data d s) = Some (view_abs d)"
  by (simp add: view_abs_of_def)

lemma call_unlock_abs:
  assumes "do { (ret, s4) \<leftarrow> call_lib f s; unlock_return ret s4 } = Some (ret, t)"
  shows "view_abs_of t = view_abs_of s \<and> unlocked t"
proof -
  obtain r s4 where c: "call_lib f s = Some (r, s4)" using assms by (cases "call_lib f s") auto
  then have "unlock_return r s4 = Some (ret, t)" using assms by simp
  then show ?thesis using call_lib_abs [OF c] unlock_return_abs by metis
qed

lemma open_buffer_abs:
  assumes "open_buffer_file env etype filetype datarep info s = Some (ret, t)"
  shows "view_abs_of t = view_abs_of s \<and> unlocked t"
proof -
  obtain data where d: "data_of s = Some data"
    using assms by (cases "data_of s") (simp_all add: open_buffer_file_def)
  obtain direct where u: "use_o_direct env filetype info = Some direct"
    using assms d by (cases "use_o_direct env filetype info") (simp_all add: open_buffer_file_def Let_def)
  define s1 where "s1 = sys_close (fd (ompio_fh data)) s"
  obtain n s2 where o: "sys_open env (buffer_name env s1 (view_index data)) True direct s1 = (n, s2)"
    by (rule prod.exhaust)
  define s3 where "s3 = put_data (data\<lparr>ompio_fh := (ompio_fh data)\<lparr>fd := n\<rparr>\<rparr>) s2"
  have a3: "view_abs_of s3 = view_abs_of s" by (simp add: s3_def view_abs_of_def d)
  show ?thesis
  proof (cases "n < 0")
    case True
    then have "unlock_return OMPI_ERROR s3 = Some (ret, t)"
      using assms d u o by (simp add: open_buffer_file_def Let_def s1_def s3_def)
    then show ?thesis using unlock_return_abs a3 by metis
  next
    case False
    then have "do { (ret, s4) \<leftarrow> call_lib (common_set_view env 0 etype etype datarep) s3; unlock_return ret s4 } =
        Some (ret, t)"
      using assms d u o by (simp add: open_buffer_file_def Let_def s1_def s3_def)
    then show ?thesis using call_unlock_abs a3 by metis
  qed
qed

lemma activate_abs:
  assumes "activate_view env disp etype filetype datarep info s = Some (ret, t)"
  shows "\<exists>d. data_of s = Some d \<and> view_abs_of t = Some (BBVIEW_STATE_ACTIVE, view_index d + 1) \<and> unlocked t"
proof -
  obtain data where d: "data_of s = Some data"
    using assms by (cases "data_of s") (simp_all add: activate_view_def)
  define d1 where "d1 = data\<lparr>state := BBVIEW_STATE_ACTIVE, view_index := view_index data + 1,
                saved_datarep := Some datarep, saved_etype := Some etype,
                saved_filetype := Some filetype, data_disp := disp\<rparr>"
  have a1: "view_abs d1 = (BBVIEW_STATE_ACTIVE, view_index data + 1)" by (simp add: d1_def view_abs_def)
  obtain r2 d2 where s2: "save_filetype env filetype d1 = Some (r2, d2)"
    using assms d by (cases "save_filetype env filetype d1") (auto simp: activate_view_def Let_def d1_def)
  show ?thesis
  proof (cases "r2 = OMPI_SUCCESS")
    case False
    then have "unlock_return r2 (put_data d2 s) = Some (ret, t)"
      using assms d s2 by (simp add: activate_view_def Let_def d1_def)
    then show ?thesis using unlock_return_abs save_abs(1) [OF s2] a1 d view_abs_of_put by metis
  next
    case True
    obtain r3 d3 where s3: "save_etype env etype d2 = Some (r3, d3)"
      using assms d s2 True by (cases "save_etype env etype d2") (auto simp: activate_view_def Let_def d1_def)
    have a3: "view_abs_of (put_data d3 s) = Some (BBVIEW_STATE_ACTIVE, view_index data + 1)"
      using save_abs(1) [OF s2] save_abs(2) [OF s3] a1 by simp
    have "unlock_return ret (put_data d3 s) = Some (ret, t) \<or>
        open_buffer_file env etype filetype datarep info (put_data d3 s) = Some (ret, t)"
      using assms d s2 s3 True
      by (auto simp: activate_view_def Let_def d1_def unlock_return_Some_iff split: if_splits)
    then show ?thesis using unlock_return_abs open_buffer_abs a3 d by metis
  qed
qed

lemma byte_view_abs:
  assumes "set_byte_view env disp etype filetype datarep s = Some (ret, t)"
  shows "\<exists>a b. view_abs_of s = Some a \<and> view_abs_of t = Some b \<and> view_step a b \<and> unlocked t \<and>
    (ret = OMPI_SUCCESS \<longrightarrow> fst b \<noteq> BBVIEW_STATE_ACTIVE)"
proof -
  obtain data where d: "data_of s = Some data"
    using assms by (cases "data_of s") (simp_all add: set_byte_view_def)
  define f where "f = (if state data = BBVIEW_STATE_ACTIVE then mca_io_bbview_file_flush env s
                   else Some (OMPI_SUCCESS, s))"
  obtain r1 s1 where f: "f = Some (r1, s1)"
    using assms d by (cases f) (auto simp: set_byte_view_def f_def)
  have d1: "data_of s1 = Some data"
    using f d flush_data [of env s r1 s1] by (auto simp: f_def split: if_splits)
  show ?thesis
  proof (cases "r1 = OMPI_SUCCESS")
    case False
    then have "unlock_return r1 s1 = Some (ret, t)"
      using assms d f by (simp add: set_byte_view_def f_def)
    then have "view_abs_of t = view_abs_of s1 \<and> unlocked t \<and> ret \<noteq> OMPI_SUCCESS"
      using unlock_return_abs False by metis
    moreover have "view_abs_of s = Some (view_abs data)" "view_abs_of s1 = Some (view_abs data)"
      using d d1 by (simp_all add: view_abs_of_def)
    ultimately show ?thesis using view_step.stay by metis
  next
    case True
    define s2 where "s2 = (if state data = BBVIEW_STATE_ACTIVE then
              (let (n, s') = sys_open env (f_filename (hd_file s1)) False False (sys_close (fd (ompio_fh data)) s1)
               in put_data (data\<lparr>saved_datarep := None, ompio_fh := (ompio_fh data)\<lparr>fd := n\<rparr>\<rparr>) s')
            else s1)"
    have a2: "view_abs_of s2 = Some (view_abs data)"
      using d1 by (auto simp: s2_def view_abs_of_def Let_def split: prod.splits)
    then obtain data2 where d2: "data_of s2 = Some data2" "view_abs data2 = view_abs data"
      by (auto simp: view_abs_of_def)
    define s3 where "s3 = (if state data2 \<noteq> BBVIEW_STATE_FALLBACK then
              put_data (data2\<lparr>state := BBVIEW_STATE_DEFAULT\<rparr>) s2 else s2)"
    have "do { (ret, s4) \<leftarrow> call_lib (common_set_view env disp etype filetype datarep) s3; unlock_return ret s4 } =
        Some (ret, t)"
      using assms d f d1 True d2(1) unfolding s2_def s3_def
      by (simp add: set_byte_view_def f_def Let_def)
    then have t: "view_abs_of t = view_abs_of s3" "unlocked t" using call_unlock_abs by blast+
    have v: "view_abs data2 = (state data, view_index data)" using d2(2) by (simp add: view_abs_def)
    then have st: "state data2 = state data" "view_index data2 = view_index data" by (simp_all add: view_abs_def)
    show ?thesis
    proof (cases "state data = BBVIEW_STATE_FALLBACK")
      case True
      then show ?thesis using t d2 d st a2
        by (auto simp: s3_def view_abs_of_def view_abs_def intro: view_step.stay)
    next
      case False
      then have "view_abs_of t = Some (BBVIEW_STATE_DEFAULT, view_index data)"
        using t st by (simp add: s3_def view_abs_def)
      then show ?thesis using t(2) d False
        by (auto simp: view_abs_of_def view_abs_def intro: view_step.unbuffer)
    qed
  qed
qed

lemma activate_step:
  assumes "activate_view env disp etype filetype datarep info u = Some (ret, t)"
    and "view_abs_of u = Some (st, n)" "st \<noteq> BBVIEW_STATE_FALLBACK"
  shows "\<exists>b. view_abs_of t = Some b \<and> view_step (st, n) b \<and> unlocked t"
proof -
  obtain du where "data_of u = Some du" "view_abs_of t = Some (BBVIEW_STATE_ACTIVE, view_index du + 1)" "unlocked t"
    using activate_abs [OF assms(1)] by blast
  moreover from this have "view_index du = n" using assms(2) by (simp add: view_abs_of_def view_abs_def)
  ultimately show ?thesis using view_step.buffer [OF assms(3)] by metis
qed

lemma set_view_locked_abs:
  assumes call: "set_view_locked env disp etype filetype datarep info s = Some (ret, t)"
  shows "\<exists>a b. view_abs_of s = Some a \<and> view_abs_of t = Some b \<and> view_step a b \<and> unlocked t"
proof (cases "disp = 0 \<and> handle etype = handle mpi_byte \<and> handle filetype = handle mpi_byte")
  case True
  then have "set_byte_view env disp etype filetype datarep s = Some (ret, t)"
    using call by (auto simp: set_view_locked_def)
  then show ?thesis using byte_view_abs by metis
next
  case other: False
  obtain data where d: "data_of s = Some data"
    using call other by (cases "data_of s") (auto simp: set_view_locked_def)
  have as: "view_abs_of s = Some (state data, view_index data)" by (simp add: view_abs_of_def view_abs_def d)
  show ?thesis
  proof (cases "state data")
    case BBVIEW_STATE_DEFAULT
    then have "activate_view env disp etype filetype datarep info s = Some (ret, t)"
      using call d other by (auto simp: set_view_locked_def)
    from activate_step [OF this as] show ?thesis using as BBVIEW_STATE_DEFAULT by auto
  next
    case BBVIEW_STATE_FALLBACK
    then have "do { (ret, s4) \<leftarrow> call_lib (common_set_view env disp etype filetype datarep) s; unlock_return ret s4 } =
        Some (ret, t)"
      using call d other by (auto simp: set_view_locked_def)
    then show ?thesis using call_unlock_abs as view_step.stay by metis
  next
    case BBVIEW_STATE_ACTIVE
    obtain r1 s1 where f: "mca_io_bbview_file_flush env s = Some (r1, s1)"
      using call d other BBVIEW_STATE_ACTIVE
      by (cases "mca_io_bbview_file_flush env s") (auto simp: set_view_locked_def)
    have d1: "view_abs_of s1 = view_abs_of s" "data_of s1 = Some data"
      using flush_abs [OF f] flush_data [OF f] d by simp_all
    show ?thesis
    proof (cases "r1 = OMPI_SUCCESS")
      case True
      then have a: "activate_view env disp etype filetype datarep info (put_data (data\<lparr>saved_datarep := None\<rparr>) s1) =
          Some (ret, t)"
        using call d other BBVIEW_STATE_ACTIVE f d1(2) by (auto simp: set_view_locked_def)
      have "view_abs_of (put_data (data\<lparr>saved_datarep := None\<rparr>) s1) = Some (BBVIEW_STATE_ACTIVE, view_index data)"
        using BBVIEW_STATE_ACTIVE by (simp add: view_abs_def)
      from activate_step [OF a this] show ?thesis using as BBVIEW_STATE_ACTIVE by auto
    next
      case False
      then have "unlock_return r1 s1 = Some (ret, t)"
        using call d other BBVIEW_STATE_ACTIVE f by (auto simp: set_view_locked_def)
      then show ?thesis using unlock_return_abs d1 as view_step.stay by metis
    qed
  qed
qed

text \<open>A call of \<open>set_view\<close> either returns an argument error at once or runs under the lock.\<close>

lemma set_view_cases:
  assumes "mca_io_bbview_file_set_view env disp etype filetype datarep info s = Some (ret, t)"
  obtains (rejected) "ret = MPI_ERR_UNSUPPORTED_DATAREP \<or> ret = MPI_ERR_DISP" "t = s"
  | (run) rep s1 where "datarep = Some rep" "lock s = Some s1"
      "set_view_locked env disp etype filetype rep info s1 = Some (ret, t)"
proof -
  obtain rep where rep: "datarep = Some rep"
    using assms by (cases datarep) (simp_all add: mca_io_bbview_file_set_view_def)
  have "(ret = MPI_ERR_UNSUPPORTED_DATAREP \<or> ret = MPI_ERR_DISP) \<and> t = s \<or>
      (\<exists>s1. lock s = Some s1 \<and> set_view_locked env disp etype filetype rep info s1 = Some (ret, t))"
    using assms rep by (auto simp: mca_io_bbview_file_set_view_def bind_eq_Some_conv split: if_splits)
  then show ?thesis using rep rejected run by blast
qed

lemma set_view_abs:
  assumes "mca_io_bbview_file_set_view env disp etype filetype datarep info s = Some (ret, t)"
  shows "t = s \<or> (\<exists>a b. view_abs_of s = Some a \<and> view_abs_of t = Some b \<and> view_step a b \<and> unlocked t)"
  using assms
proof (cases rule: set_view_cases)
  case (run rep s1)
  then show ?thesis using set_view_locked_abs [OF run(3)] lock_abs [OF run(2)] by metis
qed simp

section \<open>A view that is set\<close>

text \<open>What has to succeed outside the module for a new view to be buffered.\<close>

definition view_env_ok ::
  "'x env \<Rightarrow> mpi_type \<Rightarrow> mpi_type \<Rightarrow> (string \<Rightarrow> string option) option \<Rightarrow> bool \<Rightarrow> bool" where
  "view_env_ok env etype filetype info direct \<longleftrightarrow>
     fst (get_pack_description env filetype) = OMPI_SUCCESS \<and>
     pack_description_length env filetype = length (snd (get_pack_description env filetype)) \<and>
     fst (get_pack_description env etype) = OMPI_SUCCESS \<and>
     pack_description_length env etype = length (snd (get_pack_description env etype)) \<and>
     type_extent env filetype = OMPI_SUCCESS \<and>
     use_o_direct env filetype info = Some direct"

definition packed_view :: "'x env \<Rightarrow> 64 word \<Rightarrow> mpi_type \<Rightarrow> mpi_type \<Rightarrow> view_desc" where
  "packed_view env disp etype filetype =
     \<lparr>saved_disp = disp, saved_dt_buf = snd (get_pack_description env filetype),
      saved_et_buf = snd (get_pack_description env etype)\<rparr>"

text \<open>The private data after the view is saved, before the buffer file is opened.\<close>

definition saved_data ::
  "'x env \<Rightarrow> 64 word \<Rightarrow> mpi_type \<Rightarrow> mpi_type \<Rightarrow> string \<Rightarrow> bbview_data \<Rightarrow> bbview_data" where
  "saved_data env disp etype filetype datarep d =
     d\<lparr>state := BBVIEW_STATE_ACTIVE, view_index := view_index d + 1,
       saved_datarep := Some datarep, saved_etype := Some etype, saved_filetype := Some filetype,
       data_disp := disp,
       saved_dt_len := length (snd (get_pack_description env filetype)),
       data_dt_buf := Some (snd (get_pack_description env filetype)),
       saved_et_len := length (snd (get_pack_description env etype)),
       data_et_buf := Some (snd (get_pack_description env etype))\<rparr>"

lemma desc_of_saved: "desc_of (saved_data env disp etype filetype datarep d) = Some (packed_view env disp etype filetype)"
  by (simp add: desc_of_eq user_bytes_def saved_data_def packed_view_def)

lemma desc_of_fh [simp]: "desc_of (d\<lparr>ompio_fh := x\<rparr>) = desc_of d"
  by (simp add: desc_of_eq)

lemma activate_saves:
  assumes "view_env_ok env etype filetype info direct" "data_of s = Some data"
  shows "activate_view env disp etype filetype datarep info s =
    open_buffer_file env etype filetype datarep info (put_data (saved_data env disp etype filetype datarep data) s)"
proof -
  have "\<exists>b. get_pack_description env filetype = (OMPI_SUCCESS, b)" "\<exists>b. get_pack_description env etype = (OMPI_SUCCESS, b)"
    using assms(1) unfolding view_env_ok_def by (metis prod.collapse)+
  then show ?thesis
    using assms by (auto simp: activate_view_def view_env_ok_def save_filetype_def save_etype_def Let_def saved_data_def)
qed

text \<open>The descriptor table and the files after the swap of the descriptors.\<close>

definition swapped :: "'x env \<Rightarrow> bool \<Rightarrow> string \<Rightarrow> int \<Rightarrow> 'x sys \<Rightarrow> int \<times> 'x sys" where
  "swapped env direct name old s = sys_open env name True direct (sys_close old s)"

lemma open_buffer_ok:
  assumes d: "data_of s = Some data" and u: "use_o_direct env filetype info = Some direct"
    and name: "name = buffer_name env s (view_index data)"
    and sw: "swapped env direct name (fd (ompio_fh data)) s = (n, s2)" "0 \<le> n"
    and lib: "common_set_view env 0 etype etype datarep ((ompio_fh data)\<lparr>fd := n\<rparr>) (lib s2) = (r, fh, l)"
    and held: "f_lock (hd_file s)"
  shows "\<exists>t. open_buffer_file env etype filetype datarep info s = Some (r, t) \<and> unlocked t \<and>
    data_of t = Some (data\<lparr>ompio_fh := fh\<rparr>) \<and> files t = files s2 \<and> open_fds t = open_fds s2 \<and>
    sent t = sent s2 \<and> lib t = l \<and>
    f_filename (hd_file t) = f_filename (hd_file s) \<and> f_comm_rank (hd_file t) = f_comm_rank (hd_file s)"
proof -
  have o: "sys_open env (buffer_name env (sys_close (fd (ompio_fh data)) s) (view_index data)) True direct
      (sys_close (fd (ompio_fh data)) s) = (n, s2)"
    using sw(1) by (simp add: swapped_def name buffer_name_def)
  have h: "hd_file s2 = hd_file s"
    using o sys_open_handle [of env _ True direct "sys_close (fd (ompio_fh data)) s"] by (metis snd_conv sys_close_handle)
  show ?thesis
    using d u o lib held sw(2) h
    by (simp add: open_buffer_file_def Let_def call_lib_def unlock_return_def unlock_def put_data_def data_of_def
        unlocked_def)
qed

lemma sys_open_permitted:
  assumes "open_permitted env s path"
  shows "sys_open env path True direct s =
    (new_fd env (open_fds s),
     s\<lparr>files := (files s)(path \<mapsto> (case files s path of None \<Rightarrow> \<lparr>content = [], attrs = Map.empty\<rparr>
                    | Some f \<Rightarrow> f\<lparr>content := []\<rparr>)),
       open_fds := (open_fds s)(new_fd env (open_fds s) \<mapsto> (path, direct))\<rparr>)"
  using assms by (simp add: sys_open_def Let_def cong: option.case_cong)

text \<open>The descriptors that a successful \<open>open\<close> returns are not negative.\<close>

definition fds_nonneg :: "'x env \<Rightarrow> bool" where
  "fds_nonneg env \<longleftrightarrow> (\<forall>m. 0 \<le> new_fd env m)"

text \<open>The result of a successful buffering, from the state \<open>s\<close> with the private data \<open>data\<close>.\<close>

definition buffers_view ::
  "'x env \<Rightarrow> 64 word \<Rightarrow> mpi_type \<Rightarrow> mpi_type \<Rightarrow> string \<Rightarrow> bool \<Rightarrow> bbview_data \<Rightarrow> 'x sys \<Rightarrow> rc \<Rightarrow> 'x sys \<Rightarrow> bool" where
  "buffers_view env disp etype filetype datarep direct data s ret t \<longleftrightarrow>
     (let name = buffer_name env s (view_index data + 1);
          closed = (open_fds s)(fd (ompio_fh data) := None);
          n = new_fd env closed;
          (r, fh, l) = common_set_view env 0 etype etype datarep ((ompio_fh data)\<lparr>fd := n\<rparr>) (lib s)
      in ret = r \<and> unlocked t \<and> lib t = l \<and> sent t = sent s \<and>
         data_of t = Some ((saved_data env disp etype filetype datarep data)\<lparr>ompio_fh := fh\<rparr>) \<and>
         open_fds t = closed(n \<mapsto> (name, direct)) \<and>
         map_option content (files t name) = Some [] \<and>
         (\<forall>p. p \<noteq> name \<longrightarrow> files t p = files s p) \<and>
         (\<forall>a. attr_of name (files t) a = attr_of name (files s) a) \<and>
         f_filename (hd_file t) = f_filename (hd_file s) \<and> f_comm_rank (hd_file t) = f_comm_rank (hd_file s))"

lemma buffers_view_exists:
  assumes env: "view_env_ok env etype filetype info direct" "fds_nonneg env"
    and d: "data_of s = Some data" and held: "f_lock (hd_file s)"
    and perm: "\<And>u. open_permitted env u (buffer_name env s (view_index data + 1))"
  shows "\<exists>ret t. activate_view env disp etype filetype datarep info s = Some (ret, t) \<and>
    buffers_view env disp etype filetype datarep direct data s ret t"
proof -
  let ?d = "saved_data env disp etype filetype datarep data"
  let ?s = "put_data ?d s"
  let ?name = "buffer_name env s (view_index data + 1)"
  define n where "n = new_fd env ((open_fds s)(fd (ompio_fh data) := None))"
  obtain r fh l where c: "common_set_view env 0 etype etype datarep ((ompio_fh data)\<lparr>fd := n\<rparr>) (lib s) = (r, fh, l)"
    using prod_cases3 by blast
  obtain s2 where sw: "swapped env direct ?name (fd (ompio_fh ?d)) ?s = (n, s2)"
    and s2: "files s2 = (files s)(?name \<mapsto> (case files s ?name of None \<Rightarrow> \<lparr>content = [], attrs = Map.empty\<rparr>
                    | Some f \<Rightarrow> f\<lparr>content := []\<rparr>))"
      "open_fds s2 = ((open_fds s)(fd (ompio_fh data) := None))(n \<mapsto> (?name, direct))"
      "lib s2 = lib s" "sent s2 = sent s"
    using perm by (simp add: swapped_def sys_open_permitted sys_close_def put_data_def saved_data_def n_def)
  have n: "0 \<le> n" using env(2) by (simp add: n_def fds_nonneg_def)
  have "\<exists>t. open_buffer_file env etype filetype datarep info ?s = Some (r, t) \<and> unlocked t \<and>
      data_of t = Some (?d\<lparr>ompio_fh := fh\<rparr>) \<and> files t = files s2 \<and> open_fds t = open_fds s2 \<and>
      sent t = sent s2 \<and> lib t = l \<and>
      f_filename (hd_file t) = f_filename (hd_file ?s) \<and> f_comm_rank (hd_file t) = f_comm_rank (hd_file ?s)"
    by (rule open_buffer_ok [OF data_of_put _ _ sw n])
       (use env(1) c s2 held in \<open>simp_all add: view_env_ok_def buffer_name_def put_data_def saved_data_def\<close>)
  then show ?thesis
    unfolding activate_saves [OF env(1) d]
    using c s2 n_def
    by (auto simp: buffers_view_def Let_def attr_of_def put_data_def split: option.split)
qed

text \<open>The flush at the start of \<open>close\<close>.\<close>

lemma close_flush:
  assumes "do { s1 \<leftarrow> lock s; (ret, s2) \<leftarrow> mca_io_bbview_file_flush env s1; unlock_return ret s2 } = Some (r, u)"
    and "data_of s = Some d"
  shows "data_of u = Some d \<and> lib u = lib s \<and>
    (r = OMPI_SUCCESS \<and> state d = BBVIEW_STATE_ACTIVE \<longrightarrow> sent u = sent s @ [buffer_name env s (view_index d)])"
proof -
  obtain s1 where l: "lock s = Some s1" using assms(1) by (cases "lock s") auto
  then have s1: "s1 = s\<lparr>hd_file := (hd_file s)\<lparr>f_lock := True\<rparr>\<rparr>" by (simp add: lock_eq_Some_iff)
  have d1: "data_of s1 = Some d" using lock_abs [OF l] assms(2) by simp
  obtain r2 s2 where f: "mca_io_bbview_file_flush env s1 = Some (r2, s2)"
    using assms(1) l by (cases "mca_io_bbview_file_flush env s1") auto
  then have "unlock_return r2 s2 = Some (r, u)" using assms(1) l by simp
  then have u: "r2 = r" "u = s2\<lparr>hd_file := (hd_file s2)\<lparr>f_lock := False\<rparr>\<rparr>"
    by (simp_all add: unlock_return_Some_iff)
  have "data_of u = data_of s2" by (simp add: u data_of_def)
  moreover have "buffer_name env s1 v = buffer_name env s v" for v by (simp add: s1 buffer_name_def)
  ultimately show ?thesis
    using flush_data [OF f] flush_lib [OF f] d1 flush_sent [of env s1 s2 d] f u by (auto simp: s1)
qed

lemma set_view_buffers_aux:
  assumes "view_env_ok env etype filetype info direct" "fds_nonneg env"
    and "unlocked s" "data_of s = Some data" "state data = BBVIEW_STATE_DEFAULT"
    and "datarep \<in> {''native'', ''NATIVE''}" "disp \<noteq> displacement_current env"
    and "\<not> (disp = 0 \<and> handle etype = handle mpi_byte \<and> handle filetype = handle mpi_byte)"
    and "\<And>u. open_permitted env u (buffer_name env s (view_index data + 1))"
  shows "\<exists>ret t. mca_io_bbview_file_set_view env disp etype filetype (Some datarep) info s = Some (ret, t) \<and>
    buffers_view env disp etype filetype datarep direct data s ret t"
proof -
  define s1 where "s1 = s\<lparr>hd_file := (hd_file s)\<lparr>f_lock := True\<rparr>\<rparr>"
  have l: "lock s = Some s1" using lock_unlocked [OF assms(3)] by (simp add: s1_def)
  have d1: "data_of s1 = Some data" using lock_abs [OF l] assms(4) by simp
  have nm: "buffer_name env s1 v = buffer_name env s v" for v by (simp add: s1_def buffer_name_def)
  have held: "f_lock (hd_file s1)" by (simp add: s1_def)
  have perm: "open_permitted env u (buffer_name env s1 (view_index data + 1))" for u
    using assms(9) nm by simp
  obtain ret t where a: "activate_view env disp etype filetype datarep info s1 = Some (ret, t)"
    and b: "buffers_view env disp etype filetype datarep direct data s1 ret t"
    using buffers_view_exists [OF assms(1,2) d1 held perm] by blast
  have "mca_io_bbview_file_set_view env disp etype filetype (Some datarep) info s = Some (ret, t)"
    using a l d1 assms(4-8) by (auto simp: mca_io_bbview_file_set_view_def set_view_locked_def)
  moreover have "buffers_view env disp etype filetype datarep direct data s ret t"
    using b unfolding buffers_view_def nm by (simp add: s1_def)
  ultimately show ?thesis by blast
qed

section \<open>Properties\<close>

text \<open>C5: A call that sets a view with a native representation, other than the byte view, on a
  file in the default state buffers it: the old descriptor is replaced by one of the empty buffer
  file of the next view number, the packed types and the displacement are saved, the library gets
  the view (0, etype, etype), the state is ACTIVE and the lock is free. The attributes that the
  buffer file had before are kept.\<close>

theorem set_view_buffers:
  assumes "view_env_ok env etype filetype info direct" "fds_nonneg env"
    and "unlocked s" "data_of s = Some data" "state data = BBVIEW_STATE_DEFAULT"
    and "datarep \<in> {''native'', ''NATIVE''}" "disp \<noteq> displacement_current env"
    and "\<not> (disp = 0 \<and> handle etype = handle mpi_byte \<and> handle filetype = handle mpi_byte)"
    and "\<And>u. open_permitted env u (buffer_name env s (view_index data + 1))"
  shows "\<exists>ret t. mca_io_bbview_file_set_view env disp etype filetype (Some datarep) info s = Some (ret, t) \<and>
    buffers_view env disp etype filetype datarep direct data s ret t"
  by (rule set_view_buffers_aux [OF assms])

definition demo_env :: "unit env" where
  "demo_env = \<lparr>mpi = all_calls, pack_description_length = (\<lambda>_. 2), get_pack_description = (\<lambda>_. (OMPI_SUCCESS, ''dt'')),
     type_extent = (\<lambda>_. OMPI_SUCCESS), is_predefined = (\<lambda>x. combiner x = MPI_COMBINER_NAMED),
     type_duplicate = (\<lambda>x. (OMPI_SUCCESS, x)), tmp_dir = ''/scr'',
     displacement_current = - 54278278, mode_sequential = 256, mode_rdonly = 2,
     cstring_to_bool = (\<lambda>_. None), realpath = (\<lambda>_ p. Some (''/'' @ p)), xattr_accepts = (\<lambda>_ _ _. True),
     open_permitted = (\<lambda>_ _. True), new_fd = (\<lambda>m. if m 3 = None then 3 else if m 4 = None then 4 else 5),
     socket_ok = (\<lambda>_. True), connect_ok = (\<lambda>_. True), sock_write = (\<lambda>_ p. Some (length p)),
     common_set_view = (\<lambda>_ _ _ _ fh l. (OMPI_SUCCESS, fh, l)), common_file_open = (\<lambda>_ _ fh l. (OMPI_SUCCESS, fh, l)),
     common_file_close = (\<lambda>fh l. (OMPI_SUCCESS, fh, l))\<rparr>"

definition demo_fh :: ompio_file where
  "demo_fh = \<lparr>ompio_filename = ''out'', fd = 3, f_amode = 8, f_rank = 0, f_fview = example_view, f_atomicity = 0,
     f_sharedfp = False, f_split_coll_in_use = False, f_split_coll_req = 0\<rparr>"

definition demo_data :: bbview_data where
  "demo_data = \<lparr>ompio_fh = demo_fh, state = BBVIEW_STATE_DEFAULT, view_index = 0, data_disp = 0, data_dt_buf = None,
     saved_dt_len = 0, data_et_buf = None, saved_et_len = 0, saved_datarep = None, saved_etype = None,
     saved_filetype = None\<rparr>"

definition demo_sys :: "unit sys" where
  "demo_sys = \<lparr>hd_file = \<lparr>f_filename = ''out'', f_comm_rank = 0, f_lock = False, f_is_open = True,
       f_io_selected_data = Live demo_data\<rparr>,
     files = [''out'' \<mapsto> \<lparr>content = [], attrs = Map.empty\<rparr>], open_fds = [3 \<mapsto> (''out'', False)],
     sockets = 0, sent = [], lib = ()\<rparr>"

definition demo_vector :: mpi_type where
  "demo_vector = Mpi_type 9 MPI_COMBINER_VECTOR [4, 2, 8] [mpi_int] 32"

lemma demo_ok:
  "view_env_ok demo_env mpi_int demo_vector None False" "fds_nonneg demo_env" "unlocked demo_sys"
  "data_of demo_sys = Some demo_data" "open_permitted demo_env u p"
  by (simp_all add: view_env_ok_def demo_env_def use_o_direct_def demo_vector_def mpi_int_def fds_nonneg_def
      demo_sys_def demo_data_def unlocked_def data_of_def directio_node_def vector_case_def
      first_part_def when_named_def named_case_def block_check_def all_calls_def rd_def c_mod_def i32_def smod_nonneg)

theorem set_view_buffers_witness:
  "\<exists>ret t. mca_io_bbview_file_set_view demo_env 16 mpi_int demo_vector (Some ''native'') None demo_sys = Some (ret, t) \<and>
    buffers_view demo_env 16 mpi_int demo_vector ''native'' False demo_data demo_sys ret t"
proof (rule set_view_buffers [OF demo_ok(1-4)])
  show "state demo_data = BBVIEW_STATE_DEFAULT" by (simp add: demo_data_def)
  show "16 \<noteq> displacement_current demo_env" by (simp add: demo_env_def)
qed (simp_all add: demo_ok(5))

text \<open>A rank whose view is buffered under \<open>/scr/out-0-1\<close>, with eight bytes written.\<close>

definition sending_data :: bbview_data where
  "sending_data = demo_data\<lparr>state := BBVIEW_STATE_ACTIVE, view_index := 1, data_disp := 3, data_dt_buf := Some ''dt'',
     saved_dt_len := 2, data_et_buf := Some ''et'', saved_et_len := 2\<rparr>"

definition sending_file :: lfile where
  "sending_file = \<lparr>content = ''abcdefgh'', attrs = Map.empty\<rparr>"

definition sending_sys :: "unit sys" where
  "sending_sys = (put_data sending_data demo_sys)\<lparr>files := [local_filename ''/scr'' ''out'' 0 1 \<mapsto> sending_file]\<rparr>"

lemma sending_facts:
  "data_of sending_sys = Some sending_data" "state sending_data = BBVIEW_STATE_ACTIVE"
  "desc_of sending_data = Some \<lparr>saved_disp = 3, saved_dt_buf = ''dt'', saved_et_buf = ''et''\<rparr>"
  "local_filename ''/scr'' ''out'' 0 1 = buffer_name demo_env sending_sys (view_index sending_data)"
  "files sending_sys (local_filename ''/scr'' ''out'' 0 1) = Some sending_file"
  by (simp_all add: sending_sys_def sending_data_def data_of_def put_data_def desc_of_eq user_bytes_def buffer_name_def
      demo_env_def demo_sys_def)

lemma sending_flush: "\<exists>t. mca_io_bbview_file_flush demo_env sending_sys = Some (OMPI_SUCCESS, t)"
proof -
  let ?name = "local_filename ''/scr'' ''out'' 0 1"
  obtain m where m: "set_xattrs_for_bbview (setxattr (\<lambda>_ _ _. True) ?name) (Some ''/out'')
      (saved_view_of sending_data) (files sending_sys) = Some (True, m)"
    using set_xattrs_accepted [of "files sending_sys" ?name "saved_view_of sending_data"] sending_facts(3,5)
    by (auto simp: desc_of_def)
  have e: "xattr_accepts demo_env = (\<lambda>_ _ _. True)" "realpath demo_env sending_sys (ompio_filename (ompio_fh sending_data)) = Some ''/out''"
    by (simp_all add: demo_env_def sending_data_def demo_data_def demo_fh_def)
  show ?thesis
    using sending_facts m unfolding mca_io_bbview_file_flush_def
    by (simp add: Let_def e sending_facts(4) [symmetric]) (simp add: send_path_def demo_env_def)
qed

text \<open>C20: Every call of \<open>set_view\<close> that returns, on whatever path, releases the lock and is a
  step of the abstract machine: fallback is never left, the view number grows exactly by a
  buffered view, and only a call that buffers a view makes the file ACTIVE.\<close>

theorem set_view_refines:
  assumes "mca_io_bbview_file_set_view env disp etype filetype datarep info s = Some (ret, t)"
  shows "t = s \<or> (\<exists>a b. view_abs_of s = Some a \<and> view_abs_of t = Some b \<and> view_step a b \<and> unlocked t)"
  by (rule set_view_abs [OF assms])

theorem set_view_refines_witness:
  "\<exists>t. mca_io_bbview_file_set_view demo_env 0 mpi_byte mpi_byte (Some ''native'') None demo_sys = Some (OMPI_SUCCESS, t) \<and>
    view_step (BBVIEW_STATE_DEFAULT, 0) (BBVIEW_STATE_DEFAULT, 0) \<and> unlocked t"
proof -
  obtain t where t: "mca_io_bbview_file_set_view demo_env 0 mpi_byte mpi_byte (Some ''native'') None demo_sys =
      Some (OMPI_SUCCESS, t)" "view_abs_of t = Some (BBVIEW_STATE_DEFAULT, 0)"
    by (simp add: mca_io_bbview_file_set_view_def set_view_locked_def set_byte_view_def demo_sys_def demo_env_def
        demo_data_def handle_simps view_abs_of_def view_abs_def)
  from set_view_refines [OF t(1)] show ?thesis
    using t demo_ok(3,4) by (auto simp: view_abs_of_def view_abs_def demo_data_def intro: view_step.stay)
qed

text \<open>The private data after a description of the file type could not be packed.\<close>

definition unpacked_data ::
  "'x env \<Rightarrow> 64 word \<Rightarrow> mpi_type \<Rightarrow> mpi_type \<Rightarrow> string \<Rightarrow> bbview_data \<Rightarrow> bbview_data" where
  "unpacked_data env disp etype filetype datarep d =
     d\<lparr>state := BBVIEW_STATE_ACTIVE, view_index := view_index d + 1,
       saved_datarep := Some datarep, saved_etype := Some etype, saved_filetype := Some filetype,
       data_disp := disp, saved_dt_len := pack_description_length env filetype\<rparr>"

lemma activate_unpacked:
  assumes "data_of s = Some data" "fst (get_pack_description env filetype) \<noteq> OMPI_SUCCESS"
  shows "activate_view env disp etype filetype datarep info s =
    unlock_return (fst (get_pack_description env filetype)) (put_data (unpacked_data env disp etype filetype datarep data) s)"
  using assms
  by (auto simp: activate_view_def save_filetype_def Let_def unpacked_data_def split: prod.split)

lemma put_data_locked:
  "unlocked s \<Longrightarrow> put_data d (s\<lparr>hd_file := (hd_file s)\<lparr>f_lock := True\<rparr>\<rparr>)\<lparr>hd_file :=
     (hd_file (put_data d (s\<lparr>hd_file := (hd_file s)\<lparr>f_lock := True\<rparr>\<rparr>)))\<lparr>f_lock := False\<rparr>\<rparr> = put_data d s"
  by (simp add: put_data_def unlocked_def)

lemma relock_id: "unlocked s \<Longrightarrow> s\<lparr>hd_file := (hd_file s)\<lparr>f_lock := False\<rparr>\<rparr> = s"
  by (simp add: unlocked_def)

text \<open>A file that is ACTIVE without its buffer file takes no view and cannot be closed.\<close>

lemma stuck_close:
  assumes "unlocked t" "data_of t = Some d" "state d = BBVIEW_STATE_ACTIVE" "view_index d \<noteq> 0"
    and "files t (buffer_name env t (view_index d)) = None"
  shows "mca_io_bbview_file_close env t = Some (OMPI_ERROR, t)"
proof -
  let ?t1 = "t\<lparr>hd_file := (hd_file t)\<lparr>f_lock := True\<rparr>\<rparr>"
  have ptr: "f_io_selected_data (hd_file t) = Live d" using assms(2) by (auto simp: data_of_def split: data_ptr.splits)
  have f: "mca_io_bbview_file_flush env ?t1 = Some (OMPI_ERROR, ?t1)"
    by (rule flush_missing [of _ d]) (use assms in \<open>simp_all add: data_of_def buffer_name_def\<close>)
  have u: "unlock_return OMPI_ERROR ?t1 = Some (OMPI_ERROR, t)"
    using relock_id [OF assms(1)] by (simp add: unlock_return_held)
  show ?thesis
    using ptr assms(2,4) lock_unlocked [OF assms(1)] f u by (simp add: mca_io_bbview_file_close_def)
qed

lemma stuck_set_view:
  assumes "unlocked t" "data_of t = Some d" "state d = BBVIEW_STATE_ACTIVE"
    and "files t (buffer_name env t (view_index d)) = None"
    and "datarep \<in> {''native'', ''NATIVE''}" "disp \<noteq> displacement_current env"
  shows "mca_io_bbview_file_set_view env disp etype filetype (Some datarep) info t = Some (OMPI_ERROR, t)"
proof -
  let ?t1 = "t\<lparr>hd_file := (hd_file t)\<lparr>f_lock := True\<rparr>\<rparr>"
  have d1: "data_of ?t1 = Some d" using assms(2) by (simp add: data_of_def)
  have f: "mca_io_bbview_file_flush env ?t1 = Some (OMPI_ERROR, ?t1)"
    by (rule flush_missing [OF d1]) (use assms in \<open>simp_all add: buffer_name_def\<close>)
  have u: "unlock_return OMPI_ERROR ?t1 = Some (OMPI_ERROR, t)"
    using relock_id [OF assms(1)] by (simp add: unlock_return_held)
  have "set_view_locked env disp etype filetype datarep info ?t1 = Some (OMPI_ERROR, t)"
    using d1 assms(3) f u by (simp add: set_view_locked_def set_byte_view_def)
  then show ?thesis
    using assms(2,5,6) lock_unlocked [OF assms(1)] by (auto simp: mca_io_bbview_file_set_view_def)
qed

text \<open>C32: When the file type of a view cannot be packed, \<open>set_view\<close> returns that error but leaves
  the file ACTIVE under the next view number, with its old descriptor and no buffer file. Unless a file
  with that name happens to exist, the flush fails from then on and changes nothing, so that every later
  \<open>set_view\<close> (the byte view included) and every \<open>close\<close> returns \<open>OMPI_ERROR\<close> and leaves the
  handle as it is: the file takes no view any more, and is never closed.\<close>

theorem set_view_pack_failure:
  assumes "unlocked s" "data_of s = Some data" "state data = BBVIEW_STATE_DEFAULT"
    and "fst (get_pack_description env filetype) \<noteq> OMPI_SUCCESS"
    and "datarep \<in> {''native'', ''NATIVE''}" "disp \<noteq> displacement_current env"
    and "\<not> (disp = 0 \<and> handle etype = handle mpi_byte \<and> handle filetype = handle mpi_byte)"
    and "files s (buffer_name env s (view_index data + 1)) = None" "view_index data + 1 \<noteq> 0"
  shows "\<exists>t d. mca_io_bbview_file_set_view env disp etype filetype (Some datarep) info s =
      Some (fst (get_pack_description env filetype), t) \<and>
    data_of t = Some d \<and> state d = BBVIEW_STATE_ACTIVE \<and> ompio_fh d = ompio_fh data \<and> open_fds t = open_fds s \<and>
    mca_io_bbview_file_flush env t = Some (OMPI_ERROR, t) \<and>
    mca_io_bbview_file_close env t = Some (OMPI_ERROR, t) \<and>
    (\<forall>disp' etype' filetype' info'. disp' \<noteq> displacement_current env \<longrightarrow>
      mca_io_bbview_file_set_view env disp' etype' filetype' (Some datarep) info' t = Some (OMPI_ERROR, t))"
proof -
  define d where "d = unpacked_data env disp etype filetype datarep data"
  define t where "t = put_data d s"
  let ?s1 = "s\<lparr>hd_file := (hd_file s)\<lparr>f_lock := True\<rparr>\<rparr>"
  have d1: "data_of ?s1 = Some data" using assms(2) by (simp add: data_of_def)
  have "activate_view env disp etype filetype datarep info ?s1 = Some (fst (get_pack_description env filetype), t)"
    unfolding activate_unpacked [OF d1 assms(4)] t_def d_def
    using put_data_locked [OF assms(1)] by (simp add: unlock_return_Some_iff) (simp add: put_data_def)
  then have call: "mca_io_bbview_file_set_view env disp etype filetype (Some datarep) info s =
      Some (fst (get_pack_description env filetype), t)"
    using lock_unlocked [OF assms(1)] d1 assms(2,3,5-7) by (auto simp: mca_io_bbview_file_set_view_def set_view_locked_def)
  have t: "unlocked t" "data_of t = Some d" "state d = BBVIEW_STATE_ACTIVE" "view_index d \<noteq> 0"
      "files t (buffer_name env t (view_index d)) = None" "ompio_fh d = ompio_fh data" "open_fds t = open_fds s"
    using assms(1,8,9) by (simp_all add: t_def d_def unpacked_data_def) (simp_all add: unlocked_def put_data_def buffer_name_def)
  show ?thesis
    using call t flush_missing [OF t(2,3,5)] stuck_close [OF t(1-5)] stuck_set_view [OF t(1-3,5) assms(5)] by blast
qed

theorem set_view_pack_failure_witness:
  "\<exists>t. mca_io_bbview_file_set_view (demo_env\<lparr>get_pack_description := \<lambda>_. (MPI_ERR_INTERN, [])\<rparr>) 16 mpi_int demo_vector
      (Some ''native'') None demo_sys = Some (MPI_ERR_INTERN, t) \<and>
    mca_io_bbview_file_close (demo_env\<lparr>get_pack_description := \<lambda>_. (MPI_ERR_INTERN, [])\<rparr>) t = Some (OMPI_ERROR, t) \<and>
    mca_io_bbview_file_set_view (demo_env\<lparr>get_pack_description := \<lambda>_. (MPI_ERR_INTERN, [])\<rparr>) 0 mpi_byte mpi_byte
      (Some ''native'') None t = Some (OMPI_ERROR, t)"
proof -
  let ?env = "demo_env\<lparr>get_pack_description := \<lambda>_. (MPI_ERR_INTERN, [])\<rparr>"
  have e: "fst (get_pack_description ?env ty) = MPI_ERR_INTERN" for ty by simp
  have c: "0 \<noteq> displacement_current ?env" "16 \<noteq> displacement_current ?env" by (simp_all add: demo_env_def)
  have "buffer_name ?env demo_sys (view_index demo_data + 1) \<noteq> ''out''"
    using local_filename_head [of "''scr''" "f_filename (hd_file demo_sys)" "f_comm_rank (hd_file demo_sys)"
        "view_index demo_data + 1"] by (auto simp: buffer_name_def demo_env_def)
  then have m: "files demo_sys (buffer_name ?env demo_sys (view_index demo_data + 1)) = None"
    by (simp add: demo_sys_def)
  have "\<exists>t d. mca_io_bbview_file_set_view ?env 16 mpi_int demo_vector (Some ''native'') None demo_sys =
      Some (fst (get_pack_description ?env demo_vector), t) \<and>
    data_of t = Some d \<and> state d = BBVIEW_STATE_ACTIVE \<and> ompio_fh d = ompio_fh demo_data \<and> open_fds t = open_fds demo_sys \<and>
    mca_io_bbview_file_flush ?env t = Some (OMPI_ERROR, t) \<and>
    mca_io_bbview_file_close ?env t = Some (OMPI_ERROR, t) \<and>
    (\<forall>disp' etype' filetype' info'. disp' \<noteq> displacement_current ?env \<longrightarrow>
      mca_io_bbview_file_set_view ?env disp' etype' filetype' (Some ''native'') info' t = Some (OMPI_ERROR, t))"
    by (rule set_view_pack_failure [OF demo_ok(3,4) _ _ _ c(2) _ m]) (simp_all add: demo_data_def)
  then show ?thesis using e c(1) by metis
qed

lemma get_view_eq:
  assumes "unlocked s" "data_of s = Some d"
  shows "mca_io_bbview_file_get_view env s =
    (case (saved_etype d, saved_filetype d, saved_datarep d) of
       (Some etype, Some filetype, Some datarep) \<Rightarrow>
         Some ((OMPI_SUCCESS, data_disp d, snd (datatype_duplicate env etype),
           snd (datatype_duplicate env filetype), datarep), s)
     | _ \<Rightarrow> None)"
proof -
  let ?s1 = "s\<lparr>hd_file := (hd_file s)\<lparr>f_lock := True\<rparr>\<rparr>"
  have l: "lock s = Some ?s1" by (rule lock_unlocked [OF assms(1)])
  have d1: "data_of ?s1 = Some d" using assms(2) by (simp add: data_of_def)
  have "unlock_return r ?s1 = Some (r, s)" for r :: "rc \<times> 64 word \<times> mpi_type option \<times> mpi_type option \<times> string"
    using assms(1) by (simp add: unlock_return_held unlocked_def)
  then show ?thesis
    using l d1 by (simp add: mca_io_bbview_file_get_view_def split: option.split)
qed

lemma call_unlock_data:
  assumes "do { (ret, s4) \<leftarrow> call_lib f s; unlock_return ret s4 } = Some (ret, t)" "data_of s = Some d"
  shows "unlocked t \<and> (\<exists>fh. data_of t = Some (d\<lparr>ompio_fh := fh\<rparr>))"
proof -
  obtain r s4 where c: "call_lib f s = Some (r, s4)" using assms(1) by (cases "call_lib f s") auto
  then have u: "unlock_return r s4 = Some (ret, t)" using assms(1) by simp
  obtain fh where "data_of s4 = Some (d\<lparr>ompio_fh := fh\<rparr>)" using c assms(2) by (elim call_lib_Some) auto
  then show ?thesis using u by (auto simp: unlock_return_Some_iff unlocked_def data_of_def)
qed

text \<open>A byte view that succeeds on an ACTIVE file leaves the null pointer in \<open>saved_datarep\<close>.\<close>

lemma byte_view_drops:
  assumes call: "set_byte_view env disp etype filetype datarep s = Some (OMPI_SUCCESS, t)"
    and d: "data_of s = Some data" "state data = BBVIEW_STATE_ACTIVE"
  shows "unlocked t \<and> (\<exists>d'. data_of t = Some d' \<and> saved_datarep d' = None)"
proof -
  obtain r s1 where f: "mca_io_bbview_file_flush env s = Some (r, s1)"
    using call d by (cases "mca_io_bbview_file_flush env s") (auto simp: set_byte_view_def)
  have r: "r = OMPI_SUCCESS"
  proof (rule ccontr)
    assume "r \<noteq> OMPI_SUCCESS"
    then have "unlock_return r s1 = Some (OMPI_SUCCESS, t)" using call d f by (simp add: set_byte_view_def)
    then show False using \<open>r \<noteq> OMPI_SUCCESS\<close> by (simp add: unlock_return_Some_iff)
  qed
  have d1: "data_of s1 = Some data" using flush_data [OF f] d(1) by simp
  obtain n u where o: "sys_open env (f_filename (hd_file s1)) False False (sys_close (fd (ompio_fh data)) s1) = (n, u)"
    by (rule prod.exhaust)
  let ?d2 = "data\<lparr>saved_datarep := None, ompio_fh := (ompio_fh data)\<lparr>fd := n\<rparr>\<rparr>"
  have "do { (ret, s4) \<leftarrow> call_lib (common_set_view env disp etype filetype datarep)
      (put_data (?d2\<lparr>state := BBVIEW_STATE_DEFAULT\<rparr>) (put_data ?d2 u)); unlock_return ret s4 } = Some (OMPI_SUCCESS, t)"
    using call d f r d1 o by (simp add: set_byte_view_def)
  from call_unlock_data [OF this data_of_put] show ?thesis by auto
qed

text \<open>C38: What \<open>get_view\<close> hands back is the view that was last set: after a call of \<open>set_view\<close>
  that buffered a view it returns that displacement, that representation and duplicates of those types, and
  changes nothing. It is only defined in between: before the first view it follows a null pointer, and so it
  does once a byte view has ended the buffered one.\<close>

theorem get_view_outcomes:
  assumes "view_env_ok env etype filetype info direct" "fds_nonneg env"
    and "unlocked s" "data_of s = Some data" "state data = BBVIEW_STATE_DEFAULT"
    and "datarep \<in> {''native'', ''NATIVE''}" "disp \<noteq> displacement_current env"
    and "\<not> (disp = 0 \<and> handle etype = handle mpi_byte \<and> handle filetype = handle mpi_byte)"
    and "\<And>u. open_permitted env u (buffer_name env s (view_index data + 1))"
  shows "\<exists>ret t. mca_io_bbview_file_set_view env disp etype filetype (Some datarep) info s = Some (ret, t) \<and>
    mca_io_bbview_file_get_view env t = Some ((OMPI_SUCCESS, disp, snd (datatype_duplicate env etype),
      snd (datatype_duplicate env filetype), datarep), t) \<and>
    (saved_datarep data = None \<longrightarrow> mca_io_bbview_file_get_view env s = None) \<and>
    (\<forall>et ft rep info' u. handle et = handle mpi_byte \<and> handle ft = handle mpi_byte \<and>
       mca_io_bbview_file_set_view env 0 et ft rep info' t = Some (OMPI_SUCCESS, u) \<longrightarrow>
       mca_io_bbview_file_get_view env u = None)"
proof -
  obtain ret t where t: "mca_io_bbview_file_set_view env disp etype filetype (Some datarep) info s = Some (ret, t)"
    and b: "buffers_view env disp etype filetype datarep direct data s ret t"
    using set_view_buffers_aux [OF assms] by blast
  obtain fh where dt: "data_of t = Some ((saved_data env disp etype filetype datarep data)\<lparr>ompio_fh := fh\<rparr>)"
    and ul: "unlocked t" using b unfolding buffers_view_def by (auto simp: Let_def split: prod.splits)
  have get: "mca_io_bbview_file_get_view env t = Some ((OMPI_SUCCESS, disp, snd (datatype_duplicate env etype),
      snd (datatype_duplicate env filetype), datarep), t)"
    using get_view_eq [OF ul dt, of env] by (simp add: saved_data_def)
  have before: "saved_datarep data = None \<longrightarrow> mca_io_bbview_file_get_view env s = None"
    using get_view_eq [OF assms(3,4), of env] by (auto split: option.split)
  have after: "mca_io_bbview_file_get_view env u = None"
    if bytes: "handle et = handle mpi_byte" "handle ft = handle mpi_byte"
      and sv: "mca_io_bbview_file_set_view env 0 et ft rep info' t = Some (OMPI_SUCCESS, u)" for et ft rep info' u
    using sv
  proof (cases rule: set_view_cases)
    case (run rep' t1)
    have "set_byte_view env 0 et ft rep' t1 = Some (OMPI_SUCCESS, u)"
      using run(3) bytes by (simp add: set_view_locked_def)
    moreover have "data_of t1 = data_of t" using lock_abs [OF run(2)] by simp
    ultimately obtain d' where "unlocked u" "data_of u = Some d'" "saved_datarep d' = None"
      using byte_view_drops [of env 0 et ft rep' t1 u] dt by (auto simp: saved_data_def)
    then show ?thesis using get_view_eq [of u d' env] by (auto split: option.split)
  qed simp
  show ?thesis by (intro exI conjI allI impI) (rule t, rule get, use before in blast, use after in blast)
qed

theorem get_view_outcomes_witness:
  "\<exists>ret t. mca_io_bbview_file_set_view demo_env 16 mpi_int demo_vector (Some ''native'') None demo_sys = Some (ret, t) \<and>
    mca_io_bbview_file_get_view demo_env t = Some ((OMPI_SUCCESS, 16, Some mpi_int,
      Some (Mpi_type 9 MPI_COMBINER_DUP [] [demo_vector] 32), ''native''), t) \<and>
    mca_io_bbview_file_get_view demo_env demo_sys = None"
proof -
  have c: "16 \<noteq> displacement_current demo_env" by (simp add: demo_env_def)
  have dup: "snd (datatype_duplicate demo_env mpi_int) = Some mpi_int"
    "snd (datatype_duplicate demo_env demo_vector) = Some (Mpi_type 9 MPI_COMBINER_DUP [] [demo_vector] 32)"
    by (simp_all add: datatype_duplicate_def demo_env_def mpi_int_def demo_vector_def)
  show ?thesis
    using get_view_outcomes [OF demo_ok(1-4) _ _ c, of "''native''"]
    unfolding dup by (simp add: demo_data_def demo_ok(5)) blast
qed

text \<open>C25: \<open>flush\<close> touches nothing but the attributes of the buffer file and the message
  channel: handle, lock, library, descriptors and contents are as before and the socket is closed on every
  path; outside the ACTIVE state it does nothing at all, and a success in it means that the whole
  name was sent.\<close>

theorem flush_effects:
  assumes "mca_io_bbview_file_flush env s = Some (ret, t)" "data_of s = Some d"
  shows "hd_file t = hd_file s \<and> open_fds t = open_fds s \<and> sockets t = sockets s \<and> lib t = lib s \<and>
    contents (files t) = contents (files s) \<and>
    (state d \<noteq> BBVIEW_STATE_ACTIVE \<longrightarrow> t = s \<and> ret = OMPI_SUCCESS) \<and>
    (state d = BBVIEW_STATE_ACTIVE \<and> ret = OMPI_SUCCESS \<longrightarrow>
       sent t = sent s @ [buffer_name env s (view_index d)])"
proof -
  have "state d \<noteq> BBVIEW_STATE_ACTIVE \<longrightarrow> t = s \<and> ret = OMPI_SUCCESS"
    using assms by (auto elim: flush_cases)
  then show ?thesis
    using flush_handle [OF assms(1)] flush_fds [OF assms(1)] flush_sockets [OF assms(1)] flush_contents [OF assms(1)]
      flush_lib [OF assms(1)] flush_sent [of env s t d] assms by blast
qed

theorem flush_effects_witness:
  "\<exists>t. mca_io_bbview_file_flush demo_env sending_sys = Some (OMPI_SUCCESS, t) \<and>
    hd_file t = hd_file sending_sys \<and> open_fds t = open_fds sending_sys \<and> sockets t = 0 \<and>
    contents (files t) (local_filename ''/scr'' ''out'' 0 1) = Some ''abcdefgh'' \<and>
    sent t = [local_filename ''/scr'' ''out'' 0 1]"
proof -
  obtain t where t: "mca_io_bbview_file_flush demo_env sending_sys = Some (OMPI_SUCCESS, t)" using sending_flush by blast
  have "sockets sending_sys = 0" "sent sending_sys = []" by (simp_all add: sending_sys_def put_data_def demo_sys_def)
  moreover have "contents (files sending_sys) (local_filename ''/scr'' ''out'' 0 1) = Some ''abcdefgh''"
    using sending_facts(5) by (simp add: contents_def sending_file_def)
  ultimately show ?thesis
    using flush_effects [OF t sending_facts(1)] sending_facts(2,4) t by (intro exI [of _ t]) simp
qed

text \<open>C26: \<open>close\<close> on an unlocked handle flushes under the lock exactly when a view was ever set.
  If that flush fails, its code is returned with the lock free, the private data as it was, and the library's
  file still open. Otherwise, and only then, the library closes its file, whose code is returned, and the
  private data is freed; a buffered view has then been announced to the daemon, and a second
  \<open>close\<close> goes through the freed pointer.\<close>

theorem close_outcomes:
  assumes "unlocked s" "data_of s = Some d"
    and "view_index d \<noteq> 0 \<Longrightarrow>
      mca_io_bbview_file_flush env (s\<lparr>hd_file := (hd_file s)\<lparr>f_lock := True\<rparr>\<rparr>) = Some (fr, u)"
  shows "\<exists>ret t. mca_io_bbview_file_close env s = Some (ret, t) \<and> unlocked t \<and>
    (if view_index d \<noteq> 0 \<and> fr \<noteq> OMPI_SUCCESS
     then ret = fr \<and> data_of t = Some d \<and> lib t = lib s \<and> open_fds t = open_fds s \<and>
       files t = files u \<and> sent t = sent u
     else (\<exists>fh. common_file_close env (ompio_fh d) (lib s) = (ret, fh, lib t)) \<and>
       f_io_selected_data (hd_file t) = Dangling \<and> mca_io_bbview_file_close env t = None \<and>
       sent t = sent s @ (if view_index d \<noteq> 0 \<and> state d = BBVIEW_STATE_ACTIVE
                          then [buffer_name env s (view_index d)] else []))"
proof -
  let ?s1 = "s\<lparr>hd_file := (hd_file s)\<lparr>f_lock := True\<rparr>\<rparr>"
  have ptr: "f_io_selected_data (hd_file s) = Live d" using assms(2) by (auto simp: data_of_def split: data_ptr.splits)
  have d1: "data_of ?s1 = Some d" using assms(2) by (simp add: data_of_def)
  obtain rl fh l where c: "common_file_close env (ompio_fh d) (lib s) = (rl, fh, l)" using prod_cases3 by blast
  have finish: "\<exists>t. do { (ret, s2) \<leftarrow> call_lib (common_file_close env) v;
        Some (ret, s2\<lparr>hd_file := (hd_file s2)\<lparr>f_io_selected_data := Dangling\<rparr>\<rparr>) } = Some (rl, t) \<and>
      unlocked t \<and> lib t = l \<and> f_io_selected_data (hd_file t) = Dangling \<and> mca_io_bbview_file_close env t = None \<and>
      sent t = sent v"
    if "data_of v = Some d" "lib v = lib s" "unlocked v" for v
    using that c by (simp add: call_lib_def put_data_def unlocked_def mca_io_bbview_file_close_def data_of_def)
  show ?thesis
  proof (cases "view_index d = 0")
    case True
    then have "mca_io_bbview_file_close env s = do { (ret, s2) \<leftarrow> call_lib (common_file_close env) s;
        Some (ret, s2\<lparr>hd_file := (hd_file s2)\<lparr>f_io_selected_data := Dangling\<rparr>\<rparr>) }"
      using ptr assms(2) by (simp add: mca_io_bbview_file_close_def)
    then show ?thesis using finish [OF assms(2) refl assms(1)] True c by auto
  next
    case False
    note f = assms(3) [OF False]
    define v where "v = u\<lparr>hd_file := (hd_file u)\<lparr>f_lock := False\<rparr>\<rparr>"
    have h: "hd_file u = hd_file ?s1" by (rule flush_handle [OF f])
    have ur: "unlock_return fr u = Some (fr, v)" using h by (simp add: unlock_return_held v_def)
    have v: "data_of v = Some d" "lib v = lib s" "unlocked v" "open_fds v = open_fds s" "files v = files u" "sent v = sent u"
      using h d1 flush_lib [OF f] flush_fds [OF f] by (simp_all add: v_def data_of_def unlocked_def)
    have close: "mca_io_bbview_file_close env s = (if fr \<noteq> OMPI_SUCCESS then Some (fr, v)
        else do { (ret, s2) \<leftarrow> call_lib (common_file_close env) v;
          Some (ret, s2\<lparr>hd_file := (hd_file s2)\<lparr>f_io_selected_data := Dangling\<rparr>\<rparr>) })"
      using ptr assms(2) False lock_unlocked [OF assms(1)] f ur by (simp add: mca_io_bbview_file_close_def)
    show ?thesis
    proof (cases "fr = OMPI_SUCCESS")
      case False
      then show ?thesis using close v \<open>view_index d \<noteq> 0\<close> by simp
    next
      case True
      have "sent u = sent s @ (if state d = BBVIEW_STATE_ACTIVE then [buffer_name env s (view_index d)] else [])"
      proof (cases "state d = BBVIEW_STATE_ACTIVE")
        case act: True
        have "buffer_name env ?s1 k = buffer_name env s k" for k by (simp add: buffer_name_def)
        then show ?thesis using flush_sent [OF f [unfolded True] d1 act] act by simp
      next
        case idle: False
        then show ?thesis using f d1 by (auto simp: mca_io_bbview_file_flush_def)
      qed
      then show ?thesis using close True c v \<open>view_index d \<noteq> 0\<close> finish [OF v(1-3)] by auto
    qed
  qed
qed

text \<open>The rank that sends, with the lock taken, and a daemon that is not there.\<close>

lemma sending_close_flush:
  "\<exists>u. mca_io_bbview_file_flush demo_env (sending_sys\<lparr>hd_file := (hd_file sending_sys)\<lparr>f_lock := True\<rparr>\<rparr>) = Some (OMPI_SUCCESS, u)"
  "\<exists>u. mca_io_bbview_file_flush (demo_env\<lparr>connect_ok := \<lambda>_. False\<rparr>)
      (sending_sys\<lparr>hd_file := (hd_file sending_sys)\<lparr>f_lock := True\<rparr>\<rparr>) = Some (OMPI_ERROR, u)"
proof -
  let ?s = "sending_sys\<lparr>hd_file := (hd_file sending_sys)\<lparr>f_lock := True\<rparr>\<rparr>"
  let ?name = "local_filename ''/scr'' ''out'' 0 1"
  have d: "data_of ?s = Some sending_data" using sending_facts(1) by (simp add: data_of_def)
  have n: "buffer_name demo_env ?s (view_index sending_data) = ?name"
      "buffer_name (demo_env\<lparr>connect_ok := \<lambda>_. False\<rparr>) ?s (view_index sending_data) = ?name"
    using sending_facts(4) by (simp_all add: buffer_name_def)
  obtain m where m: "set_xattrs_for_bbview (setxattr (\<lambda>_ _ _. True) ?name) (Some ''/out'')
      (saved_view_of sending_data) (files ?s) = Some (True, m)"
    using set_xattrs_accepted [of "files ?s" ?name "saved_view_of sending_data"] sending_facts(3,5)
    by (auto simp: desc_of_def)
  have e: "xattr_accepts demo_env = (\<lambda>_ _ _. True)"
    "realpath demo_env ?s (ompio_filename (ompio_fh sending_data)) = Some ''/out''"
    by (simp_all add: demo_env_def sending_data_def demo_data_def demo_fh_def)
  show "\<exists>u. mca_io_bbview_file_flush demo_env ?s = Some (OMPI_SUCCESS, u)"
    using d n m sending_facts(2) unfolding mca_io_bbview_file_flush_def
    by (simp add: Let_def e) (simp add: send_path_def demo_env_def)
  show "\<exists>u. mca_io_bbview_file_flush (demo_env\<lparr>connect_ok := \<lambda>_. False\<rparr>) ?s = Some (OMPI_ERROR, u)"
    using d n m sending_facts(2) unfolding mca_io_bbview_file_flush_def
    by (simp add: Let_def e) (simp add: send_path_def demo_env_def)
qed

theorem close_outcomes_witness:
  "(\<exists>t. mca_io_bbview_file_close demo_env sending_sys = Some (OMPI_SUCCESS, t) \<and>
     f_io_selected_data (hd_file t) = Dangling \<and> sent t = [local_filename ''/scr'' ''out'' 0 1] \<and>
     mca_io_bbview_file_close demo_env t = None) \<and>
   (\<exists>t. mca_io_bbview_file_close (demo_env\<lparr>connect_ok := \<lambda>_. False\<rparr>) sending_sys = Some (OMPI_ERROR, t) \<and>
     data_of t = Some sending_data \<and> unlocked t)"
proof
  have ul: "unlocked sending_sys" "sent sending_sys = []" by (simp_all add: sending_sys_def put_data_def demo_sys_def unlocked_def)
  have vi: "view_index sending_data \<noteq> 0" by (simp add: sending_data_def)
  obtain u where u: "mca_io_bbview_file_flush demo_env (sending_sys\<lparr>hd_file := (hd_file sending_sys)\<lparr>f_lock := True\<rparr>\<rparr>) =
      Some (OMPI_SUCCESS, u)" using sending_close_flush(1) by blast
  have lib: "common_file_close demo_env fh l = (OMPI_SUCCESS, fh, l)" for fh l by (simp add: demo_env_def)
  show "\<exists>t. mca_io_bbview_file_close demo_env sending_sys = Some (OMPI_SUCCESS, t) \<and>
     f_io_selected_data (hd_file t) = Dangling \<and> sent t = [local_filename ''/scr'' ''out'' 0 1] \<and>
     mca_io_bbview_file_close demo_env t = None"
    using close_outcomes [OF ul(1) sending_facts(1), of demo_env OMPI_SUCCESS u] u vi lib ul(2) sending_facts(2,4)
    by auto
  obtain u' where u': "mca_io_bbview_file_flush (demo_env\<lparr>connect_ok := \<lambda>_. False\<rparr>)
      (sending_sys\<lparr>hd_file := (hd_file sending_sys)\<lparr>f_lock := True\<rparr>\<rparr>) = Some (OMPI_ERROR, u')"
    using sending_close_flush(2) by blast
  show "\<exists>t. mca_io_bbview_file_close (demo_env\<lparr>connect_ok := \<lambda>_. False\<rparr>) sending_sys = Some (OMPI_ERROR, t) \<and>
     data_of t = Some sending_data \<and> unlocked t"
    using close_outcomes [OF ul(1) sending_facts(1), of "demo_env\<lparr>connect_ok := \<lambda>_. False\<rparr>" OMPI_ERROR u'] u' vi
    by auto
qed

section \<open>Attributes of an earlier view\<close>

lemma sys_open_attrs: "sys_open env path True direct s = (n, t) \<Longrightarrow> attr_of path (files t) a = attr_of path (files s) a"
  by (auto simp: sys_open_def attr_of_def Let_def split: if_splits option.splits)

text \<open>C35: Opening a buffer file with \<open>O_TRUNC\<close> keeps its attributes. Let a description have been stored
  under a name, let \<open>set_view\<close> of a later run open a buffer file of the same name, and let a shorter
  description be stored on it: if the first data type has more chunks than the second, the daemon reads the
  second one followed by all bytes of the first beyond those chunks, which is not the view that was
  set.\<close>

theorem xattr_stale_chunk:
  assumes "set_xattrs_for_bbview (setxattr accepts path) rp1 sv1 (files s) = Some (True, m1)" "saved_desc sv1 = Some d1"
    and "sys_open env path True direct (s\<lparr>files := m1\<rparr>) = (n, t)"
    and "set_xattrs_for_bbview (setxattr accepts path) rp2 sv2 (files t) = Some (True, m2)" "saved_desc sv2 = Some d2"
    and "saved_dt_buf d2 \<noteq> []" "length (saved_dt_buf d1) \<le> TARGET_BUFFER_SIZE"
    and "length (saved_et_buf d2) \<le> MAX_XATTR_VALUE_SIZE"
    and "k = length (pieces (saved_dt_buf d2))" "k * MAX_XATTR_VALUE_SIZE < length (saved_dt_buf d1)"
    and "length (pieces (saved_dt_buf d1)) = 64 \<or>
      attr_of path (files s) (chunk_name (length (pieces (saved_dt_buf d1)))) = None"
  shows "\<exists>v. load_view (attr_of path m2) = Some (Inr v) \<and> v \<noteq> d2 \<and>
    v = d2\<lparr>saved_dt_buf := saved_dt_buf d2 @ drop (k * MAX_XATTR_VALUE_SIZE) (saved_dt_buf d1)\<rparr>"
proof -
  let ?v = "d2\<lparr>saved_dt_buf := saved_dt_buf d2 @ drop (k * MAX_XATTR_VALUE_SIZE) (saved_dt_buf d1)\<rparr>"
  have same: "attr_of path (files t) a = attr_of path m1 a" for a using sys_open_attrs [OF assms(3)] by simp
  have "\<not> length (pieces (saved_dt_buf d1)) \<le> k" using assms(10) length_pieces [of "saved_dt_buf d1" k] by simp
  then have "length (pieces (saved_dt_buf d2)) \<le> length (pieces (saved_dt_buf d1))" using assms(9) by simp
  from local_file.set_twice [OF assms(1,2) same assms(4-7) this assms(8,11)]
  have "load_view (attr_of path m2) = Some (Inr ?v)" by (simp add: concat_drop_pieces assms(9))
  moreover have "saved_dt_buf ?v \<noteq> saved_dt_buf d2" using assms(10) by simp
  then have "?v \<noteq> d2" by metis
  ultimately show ?thesis by blast
qed

definition long_type :: string where
  "long_type = replicate 65537 CHR ''x''"

lemma long_type_props: "length long_type = 65537" "drop 65536 long_type = ''x''"
  unfolding long_type_def drop_replicate length_replicate by simp_all

theorem xattr_stale_chunk_witness:
  "\<exists>m1 t m2. set_xattrs_for_bbview (setxattr (\<lambda>_ _ _. True) ''out'') (Some ''/pfs/f'')
      (example_saved\<lparr>sv_dt_buf := Some long_type, sv_dt_len := 65537\<rparr>) (files demo_sys) = Some (True, m1) \<and>
    sys_open demo_env ''out'' True False (demo_sys\<lparr>files := m1\<rparr>) = (4, t) \<and>
    set_xattrs_for_bbview (setxattr (\<lambda>_ _ _. True) ''out'') (Some ''/pfs/f'') example_saved (files t) = Some (True, m2) \<and>
    load_view (attr_of ''out'' m2) = Some (Inr (example_desc\<lparr>saved_dt_buf := ''dtx''\<rparr>))"
proof -
  let ?sv1 = "example_saved\<lparr>sv_dt_buf := Some long_type, sv_dt_len := 65537\<rparr>"
  let ?d1 = "example_desc\<lparr>saved_dt_buf := long_type\<rparr>"
  have d1: "saved_desc ?sv1 = Some ?d1"
    using long_type_props(1) by (simp add: saved_desc_def example_saved_def example_desc_def user_bytes_def)
  have d2: "saved_desc example_saved = Some example_desc"
    by (simp add: saved_desc_def example_saved_def example_desc_def user_bytes_def)
  obtain m1 where m1: "set_xattrs_for_bbview (setxattr (\<lambda>_ _ _. True) ''out'') (Some ''/pfs/f'') ?sv1 (files demo_sys) =
      Some (True, m1)" "m1 ''out'' \<noteq> None"
    using set_xattrs_accepted [OF _ d1, of "files demo_sys" "''out''" "''/pfs/f''"] by (auto simp: demo_sys_def)
  define t where "t = snd (sys_open demo_env ''out'' True False (demo_sys\<lparr>files := m1\<rparr>))"
  have op: "sys_open demo_env ''out'' True False (demo_sys\<lparr>files := m1\<rparr>) = (4, t)" "files t ''out'' \<noteq> None"
    by (simp_all add: t_def sys_open_permitted demo_ok(5)) (simp add: demo_env_def demo_sys_def)
  obtain m2 where m2: "set_xattrs_for_bbview (setxattr (\<lambda>_ _ _. True) ''out'') (Some ''/pfs/f'') example_saved (files t) =
      Some (True, m2)"
    using set_xattrs_accepted [of "files t" "''out''", OF op(2) d2, of "''/pfs/f''"] by blast
  have k: "length (pieces ''dt'') = 1" by (simp add: pieces.simps MAX_XATTR_VALUE_SIZE_def)
  have "attr_of ''out'' (files demo_sys) a = None" for a by (simp add: demo_sys_def attr_of_def)
  then show ?thesis
    using xattr_stale_chunk [OF m1(1) d1 op(1) m2 d2 _ _ _ refl] m1(1) op(1) m2 k long_type_props
    by (simp add: example_desc_def MAX_XATTR_VALUE_SIZE_def TARGET_BUFFER_SIZE_def)
qed

end
