(* ===== verification/BBV_ReadWrite.thy ===== *)
theory BBV_ReadWrite
  imports BBV_SetView
begin

text \<open>
  The read and write entry points of the module (\<open>io_bbview_file_read.c\<close>,
  \<open>io_bbview_file_write.c\<close>). All of them hand the call to the ompio library under the lock of the
  handle; the reads first refuse in the ACTIVE state, the shared-pointer calls need a shared file
  pointer module, the split collectives keep a flag. What the library does with the
  user's buffers, status and request objects is part of its own state.
\<close>

section \<open>Calls of the library\<close>

datatype io_op =
    Read | Read_at | Iread | Iread_at | Read_all | Iread_all | Read_at_all | Iread_at_all
  | Read_shared | Iread_shared | Read_ordered | Read_ordered_begin | Read_ordered_end
  | Read_all_begin | Read_all_end | Read_at_all_begin | Read_at_all_end
  | Write | Write_at | Iwrite | Iwrite_at | Write_all | Iwrite_all | Write_at_all | Iwrite_at_all
  | Write_shared | Iwrite_shared | Write_ordered | Write_ordered_begin | Write_ordered_end
  | Write_all_begin | Write_all_end | Write_at_all_begin | Write_at_all_end

record io_args =
  arg_offset :: "64 word"
  arg_count :: "64 word"
  arg_datatype :: mpi_type

text \<open>\<open>common\<close> are the \<open>mca_common_ompio_file_*\<close> functions, \<open>sharedfp\<close> the functions of the
  shared file pointer module.\<close>

record 'x io_env =
  common :: "io_op \<Rightarrow> io_args \<Rightarrow> 'x lib_call"
  sharedfp :: "io_op \<Rightarrow> io_args \<Rightarrow> 'x lib_call"
  request_wait :: "'x lib_call"

type_synonym 'x handler = "'x io_env \<Rightarrow> io_args \<Rightarrow> 'x sys \<Rightarrow> (rc \<times> 'x sys) option"

text \<open>The guards that the entry points share.\<close>

definition refuse_active :: "('x sys \<Rightarrow> (rc \<times> 'x sys) option) \<Rightarrow> 'x sys \<Rightarrow> (rc \<times> 'x sys) option" where
  "refuse_active k s = do {
     data \<leftarrow> data_of s;
     (if state data = BBVIEW_STATE_ACTIVE then Some (OMPI_ERR_NOT_SUPPORTED, s) else k s) }"

definition need_sharedfp :: "('x sys \<Rightarrow> (rc \<times> 'x sys) option) \<Rightarrow> 'x sys \<Rightarrow> (rc \<times> 'x sys) option" where
  "need_sharedfp k s = do {
     data \<leftarrow> data_of s;
     (if \<not> f_sharedfp (ompio_fh data) then Some (OMPI_ERROR, s) else k s) }"

definition set_in_use :: "bool \<Rightarrow> 'x sys \<Rightarrow> 'x sys option" where
  "set_in_use b s = do {
     data \<leftarrow> data_of s;
     Some (put_data (data\<lparr>ompio_fh := (ompio_fh data)\<lparr>f_split_coll_in_use := b\<rparr>\<rparr>) s) }"

text \<open>
  \<open>*_begin\<close> with the code it returns while another split collective is pending, and \<open>*_end\<close>,
  which waits without the lock. The flag is set whatever the call returned.
\<close>

definition split_begin :: "rc \<Rightarrow> ('x sys \<Rightarrow> (rc \<times> 'x sys) option) \<Rightarrow> 'x sys \<Rightarrow> (rc \<times> 'x sys) option" where
  "split_begin busy call s = do {
     data \<leftarrow> data_of s;
     (if f_split_coll_in_use (ompio_fh data) then Some (busy, s)
      else do {
        (ret, s1) \<leftarrow> call s;
        s2 \<leftarrow> set_in_use True s1;
        Some (ret, s2) }) }"

definition split_end :: "'x lib_call \<Rightarrow> 'x sys \<Rightarrow> (rc \<times> 'x sys) option" where
  "split_end wait s = do {
     (ret, s1) \<leftarrow> call_lib wait s;
     s2 \<leftarrow> set_in_use False s1;
     Some (ret, s2) }"

section \<open>Reads\<close>

definition mca_io_bbview_file_read :: "'x handler" where
  "mca_io_bbview_file_read env a = refuse_active (locked_call (common env Read a))"

definition mca_io_bbview_file_read_at :: "'x handler" where
  "mca_io_bbview_file_read_at env a = refuse_active (locked_call (common env Read_at a))"

definition mca_io_bbview_file_iread :: "'x handler" where
  "mca_io_bbview_file_iread env a = refuse_active (locked_call (common env Iread a))"

definition mca_io_bbview_file_iread_at :: "'x handler" where
  "mca_io_bbview_file_iread_at env a = refuse_active (locked_call (common env Iread_at a))"

definition mca_io_bbview_file_iread_all :: "'x handler" where
  "mca_io_bbview_file_iread_all env a = refuse_active (locked_call (common env Iread_all a))"

definition mca_io_bbview_file_read_at_all :: "'x handler" where
  "mca_io_bbview_file_read_at_all env a = refuse_active (locked_call (common env Read_at_all a))"

definition mca_io_bbview_file_iread_at_all :: "'x handler" where
  "mca_io_bbview_file_iread_at_all env a = refuse_active (locked_call (common env Iread_at_all a))"

text \<open>
  \<open>read_all\<close> and \<open>write_all\<close> afterwards store \<open>count * size\<close> in the status, when there is one:
  the second component of the outcome.
\<close>

definition status_count :: "io_args \<Rightarrow> bool \<Rightarrow> 64 word option" where
  "status_count a has_status =
     (if has_status then Some (arg_count a * of_int (type_size (arg_datatype a))) else None)"

definition mca_io_bbview_file_read_all ::
  "'x io_env \<Rightarrow> io_args \<Rightarrow> bool \<Rightarrow> 'x sys \<Rightarrow> ((rc \<times> 64 word option) \<times> 'x sys) option" where
  "mca_io_bbview_file_read_all env a has_status s = do {
     data \<leftarrow> data_of s;
     (if state data = BBVIEW_STATE_ACTIVE then Some ((OMPI_ERR_NOT_SUPPORTED, None), s)
      else do {
        (ret, s1) \<leftarrow> locked_call (common env Read_all a) s;
        Some ((ret, status_count a has_status), s1) }) }"

definition mca_io_bbview_file_read_shared :: "'x handler" where
  "mca_io_bbview_file_read_shared env a = refuse_active (need_sharedfp (locked_call (sharedfp env Read_shared a)))"

definition mca_io_bbview_file_iread_shared :: "'x handler" where
  "mca_io_bbview_file_iread_shared env a = refuse_active (need_sharedfp (locked_call (sharedfp env Iread_shared a)))"

definition mca_io_bbview_file_read_ordered :: "'x handler" where
  "mca_io_bbview_file_read_ordered env a = refuse_active (need_sharedfp (locked_call (sharedfp env Read_ordered a)))"

definition mca_io_bbview_file_read_ordered_begin :: "'x handler" where
  "mca_io_bbview_file_read_ordered_begin env a = refuse_active (need_sharedfp (locked_call (sharedfp env Read_ordered_begin a)))"

definition mca_io_bbview_file_read_ordered_end :: "'x handler" where
  "mca_io_bbview_file_read_ordered_end env a = refuse_active (need_sharedfp (locked_call (sharedfp env Read_ordered_end a)))"

definition mca_io_bbview_file_read_all_begin :: "'x handler" where
  "mca_io_bbview_file_read_all_begin env a = 
     refuse_active (split_begin MPI_ERR_OTHER (mca_io_bbview_file_iread_all env a))"

definition mca_io_bbview_file_read_all_end :: "'x handler" where
  "mca_io_bbview_file_read_all_end env a = refuse_active (split_end (request_wait env))"

definition mca_io_bbview_file_read_at_all_begin :: "'x handler" where
  "mca_io_bbview_file_read_at_all_begin env a = 
     refuse_active (split_begin MPI_ERR_REQUEST (locked_call (common env Iread_at_all a)))"

definition mca_io_bbview_file_read_at_all_end :: "'x handler" where
  "mca_io_bbview_file_read_at_all_end env a = refuse_active (split_end (request_wait env))"

section \<open>Writes\<close>

definition mca_io_bbview_file_write :: "'x handler" where
  "mca_io_bbview_file_write env a = locked_call (common env Write a)"

definition mca_io_bbview_file_write_at :: "'x handler" where
  "mca_io_bbview_file_write_at env a = locked_call (common env Write_at a)"

definition mca_io_bbview_file_iwrite :: "'x handler" where
  "mca_io_bbview_file_iwrite env a = locked_call (common env Iwrite a)"

definition mca_io_bbview_file_iwrite_at :: "'x handler" where
  "mca_io_bbview_file_iwrite_at env a = locked_call (common env Iwrite_at a)"

definition mca_io_bbview_file_iwrite_all :: "'x handler" where
  "mca_io_bbview_file_iwrite_all env a = locked_call (common env Iwrite_all a)"

definition mca_io_bbview_file_write_at_all :: "'x handler" where
  "mca_io_bbview_file_write_at_all env a = locked_call (common env Write_at_all a)"

definition mca_io_bbview_file_iwrite_at_all :: "'x handler" where
  "mca_io_bbview_file_iwrite_at_all env a = locked_call (common env Iwrite_at_all a)"

definition mca_io_bbview_file_write_all ::
  "'x io_env \<Rightarrow> io_args \<Rightarrow> bool \<Rightarrow> 'x sys \<Rightarrow> ((rc \<times> 64 word option) \<times> 'x sys) option" where
  "mca_io_bbview_file_write_all env a has_status s = do {
     (ret, s1) \<leftarrow> locked_call (common env Write_all a) s;
     Some ((ret, status_count a has_status), s1) }"

definition mca_io_bbview_file_write_shared :: "'x handler" where
  "mca_io_bbview_file_write_shared env a = need_sharedfp (locked_call (sharedfp env Write_shared a))"

definition mca_io_bbview_file_iwrite_shared :: "'x handler" where
  "mca_io_bbview_file_iwrite_shared env a = need_sharedfp (locked_call (sharedfp env Iwrite_shared a))"

definition mca_io_bbview_file_write_ordered :: "'x handler" where
  "mca_io_bbview_file_write_ordered env a = need_sharedfp (locked_call (sharedfp env Write_ordered a))"

definition mca_io_bbview_file_write_ordered_begin :: "'x handler" where
  "mca_io_bbview_file_write_ordered_begin env a = need_sharedfp (locked_call (sharedfp env Write_ordered_begin a))"

definition mca_io_bbview_file_write_ordered_end :: "'x handler" where
  "mca_io_bbview_file_write_ordered_end env a = need_sharedfp (locked_call (sharedfp env Write_ordered_end a))"

definition mca_io_bbview_file_write_all_begin :: "'x handler" where
  "mca_io_bbview_file_write_all_begin env a = 
     split_begin MPI_ERR_OTHER (mca_io_bbview_file_iwrite_all env a)"

definition mca_io_bbview_file_write_all_end :: "'x handler" where
  "mca_io_bbview_file_write_all_end env a = split_end (request_wait env)"

definition mca_io_bbview_file_write_at_all_begin :: "'x handler" where
  "mca_io_bbview_file_write_at_all_begin env a = 
     split_begin MPI_ERR_REQUEST (locked_call (common env Iwrite_at_all a))"

definition mca_io_bbview_file_write_at_all_end :: "'x handler" where
  "mca_io_bbview_file_write_at_all_end env a = split_end (request_wait env)"

section \<open>The table\<close>

text \<open>
  What a call hands back: its code, and the value that the entry point itself stores in the
  \<open>_ucount\<close> of the caller's status object after the library call, if it stores one.
\<close>

type_synonym io_reply = "rc \<times> 64 word option"

text \<open>The entries of \<open>mca_io_bbview_module\<close> for reading and writing (\<open>io_bbview_module.c\<close>).\<close>

definition no_status :: "('x sys \<Rightarrow> (rc \<times> 'x sys) option) \<Rightarrow> 'x sys \<Rightarrow> (io_reply \<times> 'x sys) option" where
  "no_status call s = do { (ret, t) \<leftarrow> call s; Some ((ret, None), t) }"

fun io_dispatch ::
  "io_op \<Rightarrow> bool \<Rightarrow> 'x io_env \<Rightarrow> io_args \<Rightarrow> 'x sys \<Rightarrow> (io_reply \<times> 'x sys) option" where
  "io_dispatch Read st env a = no_status (mca_io_bbview_file_read env a)"
| "io_dispatch Read_at st env a = no_status (mca_io_bbview_file_read_at env a)"
| "io_dispatch Iread st env a = no_status (mca_io_bbview_file_iread env a)"
| "io_dispatch Iread_at st env a = no_status (mca_io_bbview_file_iread_at env a)"
| "io_dispatch Iread_all st env a = no_status (mca_io_bbview_file_iread_all env a)"
| "io_dispatch Read_at_all st env a = no_status (mca_io_bbview_file_read_at_all env a)"
| "io_dispatch Iread_at_all st env a = no_status (mca_io_bbview_file_iread_at_all env a)"
| "io_dispatch Read_all st env a = mca_io_bbview_file_read_all env a st"
| "io_dispatch Read_shared st env a = no_status (mca_io_bbview_file_read_shared env a)"
| "io_dispatch Iread_shared st env a = no_status (mca_io_bbview_file_iread_shared env a)"
| "io_dispatch Read_ordered st env a = no_status (mca_io_bbview_file_read_ordered env a)"
| "io_dispatch Read_ordered_begin st env a = no_status (mca_io_bbview_file_read_ordered_begin env a)"
| "io_dispatch Read_ordered_end st env a = no_status (mca_io_bbview_file_read_ordered_end env a)"
| "io_dispatch Read_all_begin st env a = no_status (mca_io_bbview_file_read_all_begin env a)"
| "io_dispatch Read_all_end st env a = no_status (mca_io_bbview_file_read_all_end env a)"
| "io_dispatch Read_at_all_begin st env a = no_status (mca_io_bbview_file_read_at_all_begin env a)"
| "io_dispatch Read_at_all_end st env a = no_status (mca_io_bbview_file_read_at_all_end env a)"
| "io_dispatch Write st env a = no_status (mca_io_bbview_file_write env a)"
| "io_dispatch Write_at st env a = no_status (mca_io_bbview_file_write_at env a)"
| "io_dispatch Iwrite st env a = no_status (mca_io_bbview_file_iwrite env a)"
| "io_dispatch Iwrite_at st env a = no_status (mca_io_bbview_file_iwrite_at env a)"
| "io_dispatch Iwrite_all st env a = no_status (mca_io_bbview_file_iwrite_all env a)"
| "io_dispatch Write_at_all st env a = no_status (mca_io_bbview_file_write_at_all env a)"
| "io_dispatch Iwrite_at_all st env a = no_status (mca_io_bbview_file_iwrite_at_all env a)"
| "io_dispatch Write_all st env a = mca_io_bbview_file_write_all env a st"
| "io_dispatch Write_shared st env a = no_status (mca_io_bbview_file_write_shared env a)"
| "io_dispatch Iwrite_shared st env a = no_status (mca_io_bbview_file_iwrite_shared env a)"
| "io_dispatch Write_ordered st env a = no_status (mca_io_bbview_file_write_ordered env a)"
| "io_dispatch Write_ordered_begin st env a = no_status (mca_io_bbview_file_write_ordered_begin env a)"
| "io_dispatch Write_ordered_end st env a = no_status (mca_io_bbview_file_write_ordered_end env a)"
| "io_dispatch Write_all_begin st env a = no_status (mca_io_bbview_file_write_all_begin env a)"
| "io_dispatch Write_all_end st env a = no_status (mca_io_bbview_file_write_all_end env a)"
| "io_dispatch Write_at_all_begin st env a = no_status (mca_io_bbview_file_write_at_all_begin env a)"
| "io_dispatch Write_at_all_end st env a = no_status (mca_io_bbview_file_write_at_all_end env a)"

text \<open>The reads, and the library call that an operation stands for.\<close>

fun is_read :: "io_op \<Rightarrow> bool" where
  "is_read Read = True"
| "is_read Read_at = True"
| "is_read Iread = True"
| "is_read Iread_at = True"
| "is_read Iread_all = True"
| "is_read Read_at_all = True"
| "is_read Iread_at_all = True"
| "is_read Read_all = True"
| "is_read Read_shared = True"
| "is_read Iread_shared = True"
| "is_read Read_ordered = True"
| "is_read Read_ordered_begin = True"
| "is_read Read_ordered_end = True"
| "is_read Read_all_begin = True"
| "is_read Read_all_end = True"
| "is_read Read_at_all_begin = True"
| "is_read Read_at_all_end = True"
| "is_read Write = False"
| "is_read Write_at = False"
| "is_read Iwrite = False"
| "is_read Iwrite_at = False"
| "is_read Iwrite_all = False"
| "is_read Write_at_all = False"
| "is_read Iwrite_at_all = False"
| "is_read Write_all = False"
| "is_read Write_shared = False"
| "is_read Iwrite_shared = False"
| "is_read Write_ordered = False"
| "is_read Write_ordered_begin = False"
| "is_read Write_ordered_end = False"
| "is_read Write_all_begin = False"
| "is_read Write_all_end = False"
| "is_read Write_at_all_begin = False"
| "is_read Write_at_all_end = False"

section \<open>The contract of an operation on the handle\<close>

text \<open>What every operation that only passes a call on leaves alone.\<close>

definition keeps_view :: "'x sys \<Rightarrow> 'x sys \<Rightarrow> bool" where
  "keeps_view s t \<longleftrightarrow> unlocked t \<and> map_option view_part (data_of t) = map_option view_part (data_of s) \<and>
     view_abs_of t = view_abs_of s \<and> files t = files s \<and> open_fds t = open_fds s \<and> sent t = sent s \<and> sockets t = sockets s"

definition live :: "'x sys \<Rightarrow> bool" where
  "live s \<longleftrightarrow> unlocked s \<and> view_abs_of s \<noteq> None"

definition passes :: "('x sys \<Rightarrow> ('r \<times> 'x sys) option) \<Rightarrow> bool" where
  "passes call \<longleftrightarrow> (\<forall>s. live s \<longrightarrow> (\<exists>ret t. call s = Some (ret, t) \<and> keeps_view s t))"

lemma passesD: "passes call \<Longrightarrow> live s \<Longrightarrow> \<exists>ret t. call s = Some (ret, t) \<and> keeps_view s t"
  by (simp add: passes_def)

lemma live_data: "live s \<Longrightarrow> \<exists>d. data_of s = Some d"
  by (auto simp: live_def view_abs_of_def)

lemma keeps_view_live: "live s \<Longrightarrow> keeps_view s t \<Longrightarrow> live t"
  by (simp add: live_def keeps_view_def)

lemma keeps_view_refl: "live s \<Longrightarrow> keeps_view s s"
  by (simp add: live_def keeps_view_def)

lemma keeps_view_trans: "keeps_view s t \<Longrightarrow> keeps_view t u \<Longrightarrow> keeps_view s u"
  by (simp add: keeps_view_def)

lemma locked_call_eq:
  assumes "unlocked s" "data_of s = Some d" "f (ompio_fh d) (lib s) = (ret, fh, l)"
  shows "locked_call f s = Some (ret, put_data (d\<lparr>ompio_fh := fh\<rparr>) (s\<lparr>lib := l\<rparr>))"
  using assms by (simp add: locked_call_def handle_simps split: data_ptr.splits)

lemma passes_locked_call: "passes (locked_call f)"
  unfolding passes_def
proof (intro allI impI)
  fix s :: "'a sys" assume l: "live s"
  obtain d where d: "data_of s = Some d" using live_data [OF l] by blast
  obtain ret fh lb where f: "f (ompio_fh d) (lib s) = (ret, fh, lb)" using prod_cases3 by blast
  show "\<exists>ret t. locked_call f s = Some (ret, t) \<and> keeps_view s t"
    using locked_call_eq [of s d f ret fh lb, OF _ d f] l d
    by (auto simp: live_def keeps_view_def view_abs_of_def put_data_def data_of_def unlocked_def)
qed

lemma passes_refuse_active: "passes k \<Longrightarrow> passes (refuse_active k)"
  unfolding passes_def using live_data keeps_view_refl by (fastforce simp: refuse_active_def)

lemma passes_need_sharedfp: "passes k \<Longrightarrow> passes (need_sharedfp k)"
  unfolding passes_def using live_data keeps_view_refl by (fastforce simp: need_sharedfp_def)

lemma set_in_use_same:
  assumes "live s"
  shows "\<exists>t. set_in_use b s = Some t \<and> keeps_view s t"
proof -
  obtain d where d: "data_of s = Some d" using live_data [OF assms] by blast
  then show ?thesis using assms
    by (simp add: set_in_use_def live_def keeps_view_def view_abs_of_def) (simp add: put_data_def unlocked_def)
qed

lemma passes_split_begin:
  assumes "passes call"
  shows "passes (split_begin busy call)"
  unfolding passes_def
proof (intro allI impI)
  fix s :: "'a sys" assume l: "live s"
  obtain d where d: "data_of s = Some d" using live_data [OF l] by blast
  obtain ret s1 where c: "call s = Some (ret, s1)" "keeps_view s s1" using passesD [OF assms l] by blast
  obtain s2 where u: "set_in_use True s1 = Some s2" "keeps_view s1 s2"
    using set_in_use_same [OF keeps_view_live [OF l c(2)]] by blast
  show "\<exists>ret t. split_begin busy call s = Some (ret, t) \<and> keeps_view s t"
    using d c u keeps_view_trans [OF c(2) u(2)] keeps_view_refl [OF l] by (simp add: split_begin_def)
qed

lemma passes_split_end: "passes (split_end wait)"
  unfolding passes_def
proof (intro allI impI)
  fix s :: "'a sys" assume l: "live s"
  obtain d where d: "data_of s = Some d" using live_data [OF l] by blast
  obtain ret fh lb where f: "wait (ompio_fh d) (lib s) = (ret, fh, lb)" using prod_cases3 by blast
  define s1 where "s1 = put_data (d\<lparr>ompio_fh := fh\<rparr>) (s\<lparr>lib := lb\<rparr>)"
  have c: "call_lib wait s = Some (ret, s1)" using d f by (simp add: call_lib_def s1_def)
  have v: "keeps_view s s1" using l d
    by (simp add: s1_def live_def keeps_view_def view_abs_of_def) (simp add: put_data_def unlocked_def)
  obtain s2 where u: "set_in_use False s1 = Some s2" "keeps_view s1 s2"
    using set_in_use_same [OF keeps_view_live [OF l v]] by blast
  show "\<exists>ret t. split_end wait s = Some (ret, t) \<and> keeps_view s t"
    using c u keeps_view_trans [OF v u(2)] by (simp add: split_end_def)
qed

lemma passes_no_status: "passes call \<Longrightarrow> passes (no_status call)"
  unfolding passes_def by (fastforce simp: no_status_def)

lemmas passes_rules = passes_no_status passes_locked_call passes_refuse_active passes_need_sharedfp passes_split_begin passes_split_end

lemmas handler_defs =
  mca_io_bbview_file_read_def
  mca_io_bbview_file_read_at_def
  mca_io_bbview_file_iread_def
  mca_io_bbview_file_iread_at_def
  mca_io_bbview_file_iread_all_def
  mca_io_bbview_file_read_at_all_def
  mca_io_bbview_file_iread_at_all_def
  mca_io_bbview_file_read_shared_def
  mca_io_bbview_file_iread_shared_def
  mca_io_bbview_file_read_ordered_def
  mca_io_bbview_file_read_ordered_begin_def
  mca_io_bbview_file_read_ordered_end_def
  mca_io_bbview_file_read_all_begin_def
  mca_io_bbview_file_read_all_end_def
  mca_io_bbview_file_read_at_all_begin_def
  mca_io_bbview_file_read_at_all_end_def
  mca_io_bbview_file_write_def
  mca_io_bbview_file_write_at_def
  mca_io_bbview_file_iwrite_def
  mca_io_bbview_file_iwrite_at_def
  mca_io_bbview_file_iwrite_all_def
  mca_io_bbview_file_write_at_all_def
  mca_io_bbview_file_iwrite_at_all_def
  mca_io_bbview_file_write_shared_def
  mca_io_bbview_file_iwrite_shared_def
  mca_io_bbview_file_write_ordered_def
  mca_io_bbview_file_write_ordered_begin_def
  mca_io_bbview_file_write_ordered_end_def
  mca_io_bbview_file_write_all_begin_def
  mca_io_bbview_file_write_all_end_def
  mca_io_bbview_file_write_at_all_begin_def
  mca_io_bbview_file_write_at_all_end_def

lemma passes_read_all: "passes (mca_io_bbview_file_read_all env a st)"
  unfolding passes_def
proof (intro allI impI)
  fix s :: "'a sys" assume l: "live s"
  obtain d where d: "data_of s = Some d" using live_data [OF l] by blast
  obtain ret t where "locked_call (common env Read_all a) s = Some (ret, t)" "keeps_view s t"
    using passesD [OF passes_locked_call l] by blast
  then show "\<exists>ret t. mca_io_bbview_file_read_all env a st s = Some (ret, t) \<and> keeps_view s t"
    using d keeps_view_refl [OF l] by (simp add: mca_io_bbview_file_read_all_def)
qed

lemma passes_write_all: "passes (mca_io_bbview_file_write_all env a st)"
  unfolding passes_def
proof (intro allI impI)
  fix s :: "'a sys" assume "live s"
  then obtain ret t where "locked_call (common env Write_all a) s = Some (ret, t)" "keeps_view s t"
    using passesD [OF passes_locked_call] by blast
  then show "\<exists>ret t. mca_io_bbview_file_write_all env a st s = Some (ret, t) \<and> keeps_view s t"
    by (simp add: mca_io_bbview_file_write_all_def)
qed

lemma passes_dispatch: "passes (io_dispatch req st env a)"
  by (cases req) (simp_all add: handler_defs passes_rules passes_read_all passes_write_all)

section \<open>Sessions\<close>

text \<open>A sequence of commands on one handle.\<close>

primrec run :: "('c \<Rightarrow> 's \<Rightarrow> ('r \<times> 's) option) \<Rightarrow> 'c list \<Rightarrow> 's \<Rightarrow> ('r list \<times> 's) option" where
  "run exec [] s = Some ([], s)"
| "run exec (c # cs) s = do {
     (r, t) \<leftarrow> exec c s;
     (rs, u) \<leftarrow> run exec cs t;
     Some (r # rs, u) }"

text \<open>A client of operations that keep to the contract.\<close>

locale handle_client =
  fixes exec :: "'c \<Rightarrow> 'x sys \<Rightarrow> ('r \<times> 'x sys) option"
  assumes exec_passes: "passes (exec c)"
begin

lemma run_returns:
  "live s \<Longrightarrow> \<exists>rs t. run exec cs s = Some (rs, t) \<and> length rs = length cs \<and> keeps_view s t"
proof (induction cs arbitrary: s)
  case Nil
  then show ?case by (simp add: keeps_view_refl)
next
  case (Cons c cs)
  obtain r t where t: "exec c s = Some (r, t)" "keeps_view s t"
    using passesD [OF exec_passes Cons.prems] by blast
  obtain rs u where u: "run exec cs t = Some (rs, u)" "length rs = length cs" "keeps_view t u"
    using Cons.IH [OF keeps_view_live [OF Cons.prems t(2)]] by blast
  show ?case using t u keeps_view_trans [OF t(2) u(3)] by simp
qed

end

definition io_exec :: "'x io_env \<Rightarrow> io_op \<times> bool \<times> io_args \<Rightarrow> 'x sys \<Rightarrow> (io_reply \<times> 'x sys) option" where
  "io_exec env = (\<lambda>(req, st, a). io_dispatch req st env a)"

interpretation io: handle_client "io_exec env" for env
  by unfold_locales (simp add: io_exec_def passes_dispatch split: prod.split)

section \<open>Properties\<close>

text \<open>C27: Every sequence of read and write calls, individual, shared, collective or split, on an
  unlocked handle returns: no call takes the lock twice or leaves it held, and none changes the view
  state, the view number, the saved view, the files, the descriptors or the messages.\<close>

theorem io_session:
  assumes "unlocked s" "data_of s = Some d"
  shows "\<exists>rs t. run (io_exec env) cs s = Some (rs, t) \<and> length rs = length cs \<and> keeps_view s t"
  by (rule io.run_returns) (use assms in \<open>simp add: live_def view_abs_of_def\<close>)

definition demo_io :: "unit io_env" where
  "demo_io = \<lparr>common = (\<lambda>_ _ fh l. (OMPI_SUCCESS, fh, l)), sharedfp = (\<lambda>_ _ fh l. (OMPI_SUCCESS, fh, l)),
     request_wait = (\<lambda>fh l. (OMPI_SUCCESS, fh, l))\<rparr>"

definition demo_args :: io_args where
  "demo_args = \<lparr>arg_offset = 0, arg_count = 2, arg_datatype = mpi_int\<rparr>"

theorem io_session_witness:
  "\<exists>rs t. run (io_exec demo_io) [(Write, True, demo_args), (Read_all_begin, False, demo_args), (Read_shared, True, demo_args)]
      demo_sys = Some (rs, t) \<and> length rs = 3 \<and> keeps_view demo_sys t"
  using io_session [OF demo_ok(3,4), of demo_io
    "[(Write, True, demo_args), (Read_all_begin, False, demo_args), (Read_shared, True, demo_args)]"]
  by (simp del: run.simps add: numeral_3_eq_3)

fun is_plain :: "io_op \<Rightarrow> bool" where
  "is_plain req \<longleftrightarrow> req \<in> {Read, Read_at, Iread, Iread_at, Read_all, Iread_all, Read_at_all, Iread_at_all,
     Write, Write_at, Iwrite, Iwrite_at, Write_all, Iwrite_all, Write_at_all, Iwrite_at_all}"

text \<open>The status that the entry point itself stores.\<close>

definition stores_status :: "io_op \<Rightarrow> bool \<Rightarrow> io_args \<Rightarrow> 64 word option" where
  "stores_status req has_status a =
     (if req \<in> {Read_all, Write_all} \<and> has_status
      then Some (arg_count a * of_int (type_size (arg_datatype a))) else None)"

lemma plain_dispatch:
  assumes "is_plain req" "unlocked s" "data_of s = Some d" "\<not> (is_read req \<and> state d = BBVIEW_STATE_ACTIVE)"
    and "common env req a (ompio_fh d) (lib s) = (ret, fh, l)"
  shows "io_dispatch req st env a s =
    Some ((ret, stores_status req st a), put_data (d\<lparr>ompio_fh := fh\<rparr>) (s\<lparr>lib := l\<rparr>))"
  using assms locked_call_eq [of s d "common env req a" ret fh l]
  by (cases req) (simp_all add: handler_defs refuse_active_def mca_io_bbview_file_read_all_def
      mca_io_bbview_file_write_all_def no_status_def stores_status_def status_count_def)

lemma refused_dispatch:
  assumes "is_read req" "data_of s = Some d" "state d = BBVIEW_STATE_ACTIVE"
  shows "io_dispatch req st env a s = Some ((OMPI_ERR_NOT_SUPPORTED, None), s)"
  using assms
  by (cases req) (simp_all add: handler_defs refuse_active_def mca_io_bbview_file_read_all_def no_status_def)

text \<open>C12: The file operations are transparent except for reads of a buffered file and the status of two
  calls: while a view is ACTIVE every read, of whatever kind, is refused and changes nothing; otherwise a plain
  read or write has exactly the result and the effect of the library's function on the inner handle. Of the
  status object it changes nothing beyond what the library did, but for \<open>read_all\<close> and \<open>write_all\<close>:
  these overwrite the count in it with \<open>count * size\<close> when there is a status, whatever the library returned,
  also when it failed or read less.\<close>

theorem io_transparent:
  assumes "unlocked s" "data_of s = Some d"
  shows "(is_read req \<and> state d = BBVIEW_STATE_ACTIVE \<longrightarrow>
      io_dispatch req st env a s = Some ((OMPI_ERR_NOT_SUPPORTED, None), s)) \<and>
    (is_plain req \<and> \<not> (is_read req \<and> state d = BBVIEW_STATE_ACTIVE) \<longrightarrow>
      (\<forall>ret fh l. common env req a (ompio_fh d) (lib s) = (ret, fh, l) \<longrightarrow>
        io_dispatch req st env a s =
          Some ((ret, if (req = Read_all \<or> req = Write_all) \<and> st
                      then Some (arg_count a * of_int (type_size (arg_datatype a))) else None),
            put_data (d\<lparr>ompio_fh := fh\<rparr>) (s\<lparr>lib := l\<rparr>))))"
  using plain_dispatch [OF _ assms] refused_dispatch [OF _ assms(2)] by (simp add: stores_status_def)

lemma unit_lib: "(s :: unit sys)\<lparr>lib := l\<rparr> = s"
  by (cases s) simp

definition failing_io :: "unit io_env" where
  "failing_io = demo_io\<lparr>common := (\<lambda>_ _ fh l. (MPI_ERR_IO, fh, l))\<rparr>"

theorem io_transparent_witness:
  "io_dispatch Write True demo_io demo_args demo_sys = Some ((OMPI_SUCCESS, None), put_data demo_data demo_sys) \<and>
   io_dispatch Read_all True failing_io demo_args demo_sys = Some ((MPI_ERR_IO, Some 8), put_data demo_data demo_sys) \<and>
   io_dispatch Read_all True demo_io demo_args sending_sys = Some ((OMPI_ERR_NOT_SUPPORTED, None), sending_sys)"
proof (intro conjI)
  have fh: "demo_data\<lparr>ompio_fh := ompio_fh demo_data\<rparr> = demo_data" by simp
  have st: "state demo_data \<noteq> BBVIEW_STATE_ACTIVE" by (simp add: demo_data_def)
  show "io_dispatch Write True demo_io demo_args demo_sys = Some ((OMPI_SUCCESS, None), put_data demo_data demo_sys)"
    using io_transparent [OF demo_ok(3,4), of Write True demo_io demo_args] fh by (simp add: demo_io_def unit_lib del: io_dispatch.simps)
  show "io_dispatch Read_all True failing_io demo_args demo_sys = Some ((MPI_ERR_IO, Some 8), put_data demo_data demo_sys)"
    using io_transparent [OF demo_ok(3,4), of Read_all True failing_io demo_args] fh st
    by (simp add: failing_io_def demo_args_def mpi_int_def unit_lib del: io_dispatch.simps)
  have "unlocked sending_sys" by (simp add: sending_sys_def unlocked_def put_data_def demo_sys_def)
  from io_transparent [OF this sending_facts(1), of Read_all True demo_io demo_args] sending_facts(2)
  show "io_dispatch Read_all True demo_io demo_args sending_sys = Some ((OMPI_ERR_NOT_SUPPORTED, None), sending_sys)"
    by (simp del: io_dispatch.simps)
qed

section \<open>A split read that is pending when the view becomes ACTIVE\<close>

text \<open>The flag in the handle is the module's own; the library does not touch it.\<close>

definition keeps_flag :: "'x io_env \<Rightarrow> bool" where
  "keeps_flag env \<longleftrightarrow>
     (\<forall>req a fh l. f_split_coll_in_use (fst (snd (common env req a fh l))) = f_split_coll_in_use fh \<and>
        f_split_coll_in_use (fst (snd (sharedfp env req a fh l))) = f_split_coll_in_use fh)"

definition pending :: "'x sys \<Rightarrow> bool" where
  "pending s \<longleftrightarrow> unlocked s \<and>
     (\<exists>d. data_of s = Some d \<and> state d = BBVIEW_STATE_ACTIVE \<and> f_split_coll_in_use (ompio_fh d))"

fun is_write_end :: "io_op \<Rightarrow> bool" where
  "is_write_end Write_all_end = True"
| "is_write_end Write_at_all_end = True"
| "is_write_end _ = False"

text \<open>The code with which a call is refused while the request is pending; \<open>None\<close> for the others.\<close>

definition pending_reply :: "io_op \<Rightarrow> rc option" where
  "pending_reply req =
     (if is_read req then Some OMPI_ERR_NOT_SUPPORTED
      else if req = Write_all_begin then Some MPI_ERR_OTHER
      else if req = Write_at_all_begin then Some MPI_ERR_REQUEST
      else None)"

definition pending_call :: "('x sys \<Rightarrow> (rc \<times> 'x sys) option) \<Rightarrow> bool" where
  "pending_call call \<longleftrightarrow> (\<forall>s. pending s \<longrightarrow> (\<exists>r t. call s = Some (r, t) \<and> pending t))"

lemma pending_locked_call:
  assumes "\<And>fh l. f_split_coll_in_use (fst (snd (f fh l))) = f_split_coll_in_use fh"
  shows "pending_call (locked_call f)"
  unfolding pending_call_def
proof (intro allI impI)
  fix s :: "'a sys" assume p: "pending s"
  obtain d where d: "data_of s = Some d" "state d = BBVIEW_STATE_ACTIVE" "f_split_coll_in_use (ompio_fh d)" "unlocked s"
    using p by (auto simp: pending_def)
  obtain ret fh l where f: "f (ompio_fh d) (lib s) = (ret, fh, l)" using prod_cases3 by blast
  then have "f_split_coll_in_use fh" using assms [of "ompio_fh d" "lib s"] d(3) by simp
  then show "\<exists>r t. locked_call f s = Some (r, t) \<and> pending t"
    using locked_call_eq [of s d f, OF d(4,1) f] d(2,4) by (simp add: pending_def) (simp add: put_data_def unlocked_def)
qed

lemma pending_need_sharedfp: "pending_call k \<Longrightarrow> pending_call (need_sharedfp k)"
  unfolding pending_call_def by (fastforce simp: pending_def need_sharedfp_def)

lemma pending_split_begin: "pending s \<Longrightarrow> split_begin busy k s = Some (busy, s)"
  by (auto simp: pending_def split_begin_def)

lemma pending_exec:
  assumes env: "keeps_flag env" and req: "\<not> is_write_end req" and p: "pending s"
  shows "\<exists>r t. io_dispatch req st env a s = Some (r, t) \<and> pending t \<and> (\<forall>e. pending_reply req = Some e \<longrightarrow> fst r = e)"
proof (cases "pending_reply req")
  case None
  have "pending_call (locked_call (common env req a))" "pending_call (locked_call (sharedfp env req a))"
    using env by (auto simp: keeps_flag_def intro!: pending_locked_call)
  moreover note pending_need_sharedfp [OF this(2)]
  ultimately have call: "\<exists>r t. locked_call (common env req a) s = Some (r, t) \<and> pending t"
    "\<exists>r t. need_sharedfp (locked_call (sharedfp env req a)) s = Some (r, t) \<and> pending t"
    using p by (simp_all add: pending_call_def)
  show ?thesis
    using None req call
    by (cases req) (auto simp: pending_reply_def handler_defs mca_io_bbview_file_write_all_def no_status_def)
next
  case (Some e)
  show ?thesis
  proof (cases "is_read req")
    case True
    then show ?thesis using refused_dispatch [OF True, of s] p Some by (auto simp: pending_def pending_reply_def)
  next
    case False
    then have "req = Write_all_begin \<or> req = Write_at_all_begin"
      using Some by (auto simp: pending_reply_def split: if_splits)
    then show ?thesis
      using p by (auto simp: pending_reply_def handler_defs no_status_def pending_split_begin)
  qed
qed

lemma pending_run:
  assumes "keeps_flag env" "list_all (\<lambda>(req, _). \<not> is_write_end req) cs" "pending s"
  shows "\<exists>rs t. run (io_exec env) cs s = Some (rs, t) \<and> pending t \<and>
    list_all2 (\<lambda>(req, _) r. \<forall>e. pending_reply req = Some e \<longrightarrow> fst r = e) cs rs"
  using assms(2,3)
proof (induction cs arbitrary: s)
  case (Cons c cs)
  obtain req st a where c: "c = (req, st, a)" by (rule prod_cases3)
  obtain r t where t: "io_dispatch req st env a s = Some (r, t)" "pending t" "\<forall>e. pending_reply req = Some e \<longrightarrow> fst r = e"
    using pending_exec [OF assms(1) _ Cons.prems(2), of req st a] Cons.prems(1) c by auto
  obtain rs u where "run (io_exec env) cs t = Some (rs, u)" "pending u"
      "list_all2 (\<lambda>(req, _) r. \<forall>e. pending_reply req = Some e \<longrightarrow> fst r = e) cs rs"
    using Cons.IH [OF _ t(2)] Cons.prems(1) by auto
  then show ?case using t c by (simp add: io_exec_def del: io_dispatch.simps)
qed simp

lemma write_end_completes:
  assumes "is_write_end req" "data_of t = Some d" "request_wait env (ompio_fh d) (lib t) = (ret, fh, l)"
  shows "io_dispatch req st env a t =
    Some ((ret, None), put_data (d\<lparr>ompio_fh := fh\<lparr>f_split_coll_in_use := False\<rparr>\<rparr>) (t\<lparr>lib := l\<rparr>))"
  using assms
  by (cases req) (simp_all add: handler_defs no_status_def split_end_def call_lib_def set_in_use_def put_data_def data_of_def)

text \<open>C33: A split read that is pending when a view becomes ACTIVE can only be ended as a write. As long
  as the view stays ACTIVE, no sequence of read and write calls without an end of a split write takes the
  flag down: every read, the ends of split reads included, is refused with
  \<open>OMPI_ERR_NOT_SUPPORTED\<close>, and the two begins of split writes with \<open>MPI_ERR_OTHER\<close> and
  \<open>MPI_ERR_REQUEST\<close>. The end of a split write has no such test: it waits for the pending request, returns
  what the wait returns and clears the flag, although no split write was begun.\<close>

theorem pending_split_read:
  assumes "keeps_flag env" "list_all (\<lambda>(req, _). \<not> is_write_end req) cs"
    and "unlocked s" "data_of s = Some d" "state d = BBVIEW_STATE_ACTIVE" "f_split_coll_in_use (ompio_fh d)"
  shows "\<exists>rs t d'. run (io_exec env) cs s = Some (rs, t) \<and>
    list_all2 (\<lambda>(req, _) r. \<forall>e. pending_reply req = Some e \<longrightarrow> fst r = e) cs rs \<and>
    data_of t = Some d' \<and> state d' = BBVIEW_STATE_ACTIVE \<and> f_split_coll_in_use (ompio_fh d') \<and>
    (\<forall>req st a ret fh l. is_write_end req \<and> request_wait env (ompio_fh d') (lib t) = (ret, fh, l) \<longrightarrow>
      io_dispatch req st env a t =
        Some ((ret, None), put_data (d'\<lparr>ompio_fh := fh\<lparr>f_split_coll_in_use := False\<rparr>\<rparr>) (t\<lparr>lib := l\<rparr>)))"
proof -
  have "pending s" using assms(3-6) by (auto simp: pending_def)
  then obtain rs t where t: "run (io_exec env) cs s = Some (rs, t)" "pending t"
      "list_all2 (\<lambda>(req, _) r. \<forall>e. pending_reply req = Some e \<longrightarrow> fst r = e) cs rs"
    using pending_run [OF assms(1,2)] by blast
  obtain d' where d': "data_of t = Some d'" "state d' = BBVIEW_STATE_ACTIVE" "f_split_coll_in_use (ompio_fh d')"
    using t(2) by (auto simp: pending_def)
  show ?thesis using t(1,3) d' write_end_completes [OF _ d'(1), of _ env] by blast
qed

definition stuck_data :: bbview_data where
  "stuck_data = demo_data\<lparr>state := BBVIEW_STATE_ACTIVE, ompio_fh := demo_fh\<lparr>f_split_coll_in_use := True\<rparr>\<rparr>"

definition stuck_sys :: "unit sys" where
  "stuck_sys = put_data stuck_data demo_sys"

definition stuck_calls :: "(io_op \<times> bool \<times> io_args) list" where
  "stuck_calls = [(Read_all_end, True, demo_args), (Write, True, demo_args), (Write_all_begin, True, demo_args),
     (Write_at_all_begin, True, demo_args)]"

theorem pending_split_read_witness:
  "\<exists>t d'. run (io_exec demo_io) stuck_calls stuck_sys =
      Some ([(OMPI_ERR_NOT_SUPPORTED, None), (OMPI_SUCCESS, None), (MPI_ERR_OTHER, None), (MPI_ERR_REQUEST, None)], t) \<and>
    f_split_coll_in_use (ompio_fh d') \<and>
    io_dispatch Write_all_end True demo_io demo_args t =
      Some ((OMPI_SUCCESS, None), put_data (d'\<lparr>ompio_fh := (ompio_fh d')\<lparr>f_split_coll_in_use := False\<rparr>\<rparr>) t)"
proof -
  have k: "keeps_flag demo_io" by (simp add: keeps_flag_def demo_io_def)
  have c: "list_all (\<lambda>(req, _). \<not> is_write_end req) stuck_calls" by (simp add: stuck_calls_def)
  have s: "unlocked stuck_sys" "data_of stuck_sys = Some stuck_data" "state stuck_data = BBVIEW_STATE_ACTIVE"
      "f_split_coll_in_use (ompio_fh stuck_data)"
    by (simp_all add: stuck_sys_def stuck_data_def) (simp add: put_data_def demo_sys_def unlocked_def)
  obtain t where r: "run (io_exec demo_io) stuck_calls stuck_sys =
      Some ([(OMPI_ERR_NOT_SUPPORTED, None), (OMPI_SUCCESS, None), (MPI_ERR_OTHER, None), (MPI_ERR_REQUEST, None)], t)"
    by (simp add: stuck_calls_def io_exec_def handler_defs no_status_def refuse_active_def split_begin_def
        locked_call_def demo_io_def handle_simps stuck_sys_def stuck_data_def demo_sys_def)
  have w: "request_wait demo_io fh l = (OMPI_SUCCESS, fh, l)" for fh l by (simp add: demo_io_def)
  from pending_split_read [OF k c s] obtain d' where d': "f_split_coll_in_use (ompio_fh d')"
    "\<forall>req st a ret fh l. is_write_end req \<and> request_wait demo_io (ompio_fh d') (lib t) = (ret, fh, l) \<longrightarrow>
      io_dispatch req st demo_io a t =
        Some ((ret, None), put_data (d'\<lparr>ompio_fh := fh\<lparr>f_split_coll_in_use := False\<rparr>\<rparr>) (t\<lparr>lib := l\<rparr>))"
    unfolding r by (elim exE conjE) simp
  have "is_write_end Write_all_end \<and> request_wait demo_io (ompio_fh d') (lib t) = (OMPI_SUCCESS, ompio_fh d', lib t)"
    using w by simp
  then have "io_dispatch Write_all_end True demo_io demo_args t = Some ((OMPI_SUCCESS, None),
      put_data (d'\<lparr>ompio_fh := (ompio_fh d')\<lparr>f_split_coll_in_use := False\<rparr>\<rparr>) (t\<lparr>lib := lib t\<rparr>))"
    using d'(2) by blast
  then show ?thesis using r d'(1) unfolding unit_lib by blast
qed

end
