(* ===== verification/BBV_FileOps.thy ===== *)
theory BBV_FileOps
  imports BBV_ReadWrite
begin

text \<open>
  The remaining operations of \<open>io_bbview_file_open.c\<close> that do not move a file pointer: sizes,
  access mode, atomicity and synchronisation. The collective calls, the file system module and the
  byte transfer layer are parameters; a broadcast yields the value of the root process.
\<close>

section \<open>What the operations rely on\<close>

record 'x ops_env =
  bcast_offset :: "64 word \<Rightarrow> 'x \<Rightarrow> rc \<times> 64 word"
  bcast_int :: "int \<Rightarrow> 'x \<Rightarrow> int"
  barrier :: "'x \<Rightarrow> rc"
  fs_set_size :: "64 word \<Rightarrow> 'x lib_call"
  fs_file_sync :: "'x lib_call"
  common_get_size :: "ompio_file \<Rightarrow> 'x \<Rightarrow> rc \<times> 64 word"
  check_atomicity :: "ompio_file \<Rightarrow> 'x \<Rightarrow> bool"
  requests_pending :: "'x \<Rightarrow> bool"
  opal_type_extent :: "mpi_type \<Rightarrow> int"
  rdonly_bit :: "32 word"

section \<open>Size\<close>

definition mca_io_bbview_file_set_size :: "'x ops_env \<Rightarrow> 64 word \<Rightarrow> 'x sys \<Rightarrow> (rc \<times> 'x sys) option" where
  "mca_io_bbview_file_set_size env sz s = do {
     s1 \<leftarrow> lock s;
     _ \<leftarrow> data_of s1;
     let (ret, tmp) = bcast_offset env sz (lib s1);
     (if ret \<noteq> OMPI_SUCCESS then unlock_return ret s1
      else if tmp \<noteq> sz then unlock_return OMPI_ERROR s1
      else do {
        (ret, s2) \<leftarrow> call_lib (fs_set_size env sz) s1;
        (if ret \<noteq> OMPI_SUCCESS then unlock_return ret s2
         else unlock_return (barrier env (lib s2)) s2) }) }"

definition mca_io_bbview_file_get_size :: "'x ops_env \<Rightarrow> 'x sys \<Rightarrow> ((rc \<times> 64 word) \<times> 'x sys) option" where
  "mca_io_bbview_file_get_size env s = do {
     s1 \<leftarrow> lock s;
     data \<leftarrow> data_of s1;
     unlock_return (common_get_size env (ompio_fh data) (lib s1)) s1 }"

definition mca_io_bbview_file_get_amode :: "'x sys \<Rightarrow> ((rc \<times> 32 word) \<times> 'x sys) option" where
  "mca_io_bbview_file_get_amode s = do {
     data \<leftarrow> data_of s;
     Some ((OMPI_SUCCESS, f_amode (ompio_fh data)), s) }"

definition mca_io_bbview_file_get_type_extent ::
  "'x ops_env \<Rightarrow> mpi_type \<Rightarrow> 'x sys \<Rightarrow> ((rc \<times> int) \<times> 'x sys) option" where
  "mca_io_bbview_file_get_type_extent env datatype_arg s = Some ((OMPI_SUCCESS, opal_type_extent env datatype_arg), s)"

section \<open>Atomicity and synchronisation\<close>

text \<open>
  Lines 318--362. Atomic mode ends the buffering for good, also when the byte transfer layer
  refuses it; the result of the broadcast itself is not looked at.
\<close>

definition mca_io_bbview_file_set_atomicity :: "'x ops_env \<Rightarrow> int \<Rightarrow> 'x sys \<Rightarrow> (rc \<times> 'x sys) option" where
  "mca_io_bbview_file_set_atomicity env flag_arg s = do {
     data \<leftarrow> data_of s;
     s1 \<leftarrow> lock s;
     let flag = (if flag_arg \<noteq> 0 then 1 else 0);
     (if state data = BBVIEW_STATE_ACTIVE then unlock_return OMPI_ERROR s1
      else if bcast_int env flag (lib s1) \<noteq> flag then unlock_return OMPI_ERROR s1
      else if flag \<noteq> 0 then
        (let ok = check_atomicity env (ompio_fh data) (lib s1);
             fh = (if ok then (ompio_fh data)\<lparr>f_atomicity := flag\<rparr> else ompio_fh data)
         in unlock_return (if ok then OMPI_SUCCESS else MPI_ERR_IO)
              (put_data (data\<lparr>ompio_fh := fh, state := BBVIEW_STATE_FALLBACK\<rparr>) s1))
      else unlock_return OMPI_SUCCESS (put_data (data\<lparr>ompio_fh := (ompio_fh data)\<lparr>f_atomicity := flag\<rparr>\<rparr>) s1)) }"

definition mca_io_bbview_file_get_atomicity :: "'x sys \<Rightarrow> ((rc \<times> int) \<times> 'x sys) option" where
  "mca_io_bbview_file_get_atomicity s = do {
     s1 \<leftarrow> lock s;
     data \<leftarrow> data_of s1;
     unlock_return (OMPI_SUCCESS, f_atomicity (ompio_fh data)) s1 }"

definition mca_io_bbview_file_sync :: "'x ops_env \<Rightarrow> 'x sys \<Rightarrow> (rc \<times> 'x sys) option" where
  "mca_io_bbview_file_sync env s = do {
     s1 \<leftarrow> lock s;
     (if requests_pending env (lib s1) then unlock_return MPI_ERR_OTHER s1
      else do {
        data \<leftarrow> data_of s1;
        (if and (f_amode (ompio_fh data)) (rdonly_bit env) \<noteq> 0 then unlock_return MPI_ERR_ACCESS s1
         else if barrier env (lib s1) \<noteq> OMPI_SUCCESS then unlock_return (barrier env (lib s1)) s1
         else do {
           (ret, s2) \<leftarrow> call_lib (fs_file_sync env) s1;
           unlock_return ret s2 }) }) }"

section \<open>Effect on the view state\<close>

lemma set_size_abs:
  assumes "mca_io_bbview_file_set_size env sz s = Some (ret, t)"
  shows "view_abs_of t = view_abs_of s \<and> unlocked t"
proof -
  obtain s1 where l: "lock s = Some s1"
    using assms by (cases "lock s") (simp_all add: mca_io_bbview_file_set_size_def)
  obtain r tmp where b: "bcast_offset env sz (lib s1) = (r, tmp)" by (rule prod.exhaust)
  obtain d where d: "data_of s1 = Some d"
    using assms l by (cases "data_of s1") (simp_all add: mca_io_bbview_file_set_size_def)
  have "\<exists>r u. unlock_return r u = Some (ret, t) \<and> view_abs_of u = view_abs_of s1"
  proof (cases "r = OMPI_SUCCESS \<and> tmp = sz")
    case False
    then show ?thesis using assms l b d by (auto simp: mca_io_bbview_file_set_size_def split: if_splits)
  next
    case True
    obtain r2 s2 where c: "call_lib (fs_set_size env sz) s1 = Some (r2, s2)"
      using assms l b d True by (cases "call_lib (fs_set_size env sz) s1") (auto simp: mca_io_bbview_file_set_size_def)
    then show ?thesis using assms l b d True call_lib_abs [OF c]
      by (auto simp: mca_io_bbview_file_set_size_def split: if_splits)
  qed
  then show ?thesis using unlock_return_abs lock_abs [OF l] by metis
qed

lemma sync_abs:
  assumes "mca_io_bbview_file_sync env s = Some (ret, t)"
  shows "view_abs_of t = view_abs_of s \<and> unlocked t"
proof -
  obtain s1 where l: "lock s = Some s1"
    using assms by (cases "lock s") (simp_all add: mca_io_bbview_file_sync_def)
  have "\<exists>r u. unlock_return r u = Some (ret, t) \<and> view_abs_of u = view_abs_of s1"
    using assms l call_lib_abs [of "fs_file_sync env" s1]
    by (fastforce simp: mca_io_bbview_file_sync_def bind_eq_Some_conv split: if_splits)
  then show ?thesis using unlock_return_abs lock_abs [OF l] by metis
qed

lemma set_atomicity_abs:
  assumes "mca_io_bbview_file_set_atomicity env flag s = Some (ret, t)"
  shows "\<exists>a b. view_abs_of s = Some a \<and> view_abs_of t = Some b \<and> view_step a b \<and> unlocked t"
proof -
  obtain d where d: "data_of s = Some d"
    using assms by (cases "data_of s") (simp_all add: mca_io_bbview_file_set_atomicity_def)
  obtain s1 where l: "lock s = Some s1"
    using assms d by (cases "lock s") (simp_all add: mca_io_bbview_file_set_atomicity_def)
  have a: "view_abs_of s = Some (state d, view_index d)" "view_abs_of s1 = Some (state d, view_index d)"
    using d lock_abs [OF l] by (simp_all add: view_abs_of_def view_abs_def)
  have "\<exists>r u b. unlock_return r u = Some (ret, t) \<and> view_abs_of u = Some b \<and> view_step (state d, view_index d) b"
  proof (cases "state d = BBVIEW_STATE_ACTIVE")
    case True
    then have "unlock_return OMPI_ERROR s1 = Some (ret, t)"
      using assms d l by (simp add: mca_io_bbview_file_set_atomicity_def)
    then show ?thesis using a view_step.stay by metis
  next
    case False
    have v: "view_abs (d\<lparr>ompio_fh := x, state := BBVIEW_STATE_FALLBACK\<rparr>) = (BBVIEW_STATE_FALLBACK, view_index d)"
      "view_abs (d\<lparr>ompio_fh := x\<rparr>) = (state d, view_index d)" for x
      by (simp_all add: view_abs_def)
    have f: "view_abs (d\<lparr>state := BBVIEW_STATE_FALLBACK\<rparr>) = (BBVIEW_STATE_FALLBACK, view_index d)"
      by (simp add: view_abs_def)
    have "unlock_return OMPI_ERROR s1 = Some (ret, t) \<or>
        (\<exists>r. unlock_return r (put_data (d\<lparr>state := BBVIEW_STATE_FALLBACK\<rparr>) s1) = Some (ret, t)) \<or>
        (\<exists>r x. unlock_return r (put_data (d\<lparr>ompio_fh := x, state := BBVIEW_STATE_FALLBACK\<rparr>) s1) = Some (ret, t)) \<or>
        (\<exists>r x. unlock_return r (put_data (d\<lparr>ompio_fh := x\<rparr>) s1) = Some (ret, t))"
      using assms d l False
      by (simp add: mca_io_bbview_file_set_atomicity_def Let_def split: if_splits) blast+
    then show ?thesis
      using a v f view_step.stay view_step.fall_back [OF False, of "view_index d"] view_abs_of_put by metis
  qed
  then show ?thesis using unlock_return_abs a by metis
qed

end
