(* ===== verification/BBV_Position.thy ===== *)
theory BBV_Position
  imports BBV_ReadWrite
begin

text \<open>
  Positions in a view (\<open>io_bbview_file_open.c\<close>, lines 410--634): from a position in elements
  to a byte of the file, from the end of the file to a position, and seeking. Offsets and sizes are
  64-bit words; the comparisons with zero and between offsets are signed, as
  \<open>OMPI_MPI_OFFSET_TYPE\<close> and \<open>f_view_extent\<close> are, the divisions by \<open>size_t\<close> values unsigned.
\<close>

section \<open>The byte that a position stands for\<close>

text \<open>
  Lines 557--572: the block and the offset in it, in C's \<open>int\<close>. The search has no bound of its
  own; going past the last block is undefined.
\<close>

fun byte_block :: "iovec list \<Rightarrow> int \<Rightarrow> nat \<Rightarrow> (nat \<times> int) option" where
  "byte_block [] i index = None"
| "byte_block (e # es) i index =
     (let k = to_int32 (iov_len e) in
      if k \<le> i then do {
        i' \<leftarrow> i32 (i - k);
        (if i' = 0 then Some (index + 1, 0) else byte_block es i' (index + 1)) }
      else Some (index, i))"

text \<open>Lines 539--576 on the view; \<open>MPI_ERR_ARG\<close> leaves \<open>*disp\<close> unset.\<close>

definition byte_offset :: "fview \<Rightarrow> 64 word \<Rightarrow> (rc \<times> 64 word option) option" where
  "byte_offset fv offset =
     (if f_view_size fv = 0 then Some (OMPI_SUCCESS, Some 0)
      else
        (let temp_offset = f_view_extent fv * (offset * f_etype_size fv div f_view_size fv) in
         if sint temp_offset < 0 then Some (MPI_ERR_ARG, None)
         else do {
           let i = to_int32 (offset * f_etype_size fv mod f_view_size fv);
           (index, k) \<leftarrow> byte_block (f_decoded_iov fv) i 0;
           e \<leftarrow> rd (f_decoded_iov fv) index;
           Some (OMPI_SUCCESS, Some (f_disp fv + temp_offset + iov_base e + of_int k)) }))"

definition mca_io_bbview_file_get_byte_offset ::
  "64 word \<Rightarrow> 'x sys \<Rightarrow> ((rc \<times> 64 word option) \<times> 'x sys) option" where
  "mca_io_bbview_file_get_byte_offset offset s = do {
     s1 \<leftarrow> lock s;
     data \<leftarrow> data_of s1;
     r \<leftarrow> byte_offset (f_fview (ompio_fh data)) offset;
     unlock_return r s1 }"

section \<open>The position of the end of the file\<close>

text \<open>Lines 432--447: the block, with \<open>index_in_file_view\<close> counting the blocks looked at.\<close>

fun eof_block :: "iovec list \<Rightarrow> 64 word \<Rightarrow> 64 word \<Rightarrow> 64 word \<Rightarrow> 64 word \<Rightarrow> nat \<Rightarrow> 64 word \<times> nat" where
  "eof_block [] in_offset start offset prev_offset index = (prev_offset, index)"
| "eof_block (e # es) in_offset start offset prev_offset index =
     (if sint offset \<le> sint in_offset then
        (let offset' = start + iov_base e;
             prev' = (if sint offset' \<le> sint in_offset then offset' else prev_offset)
         in eof_block es in_offset start offset' prev' (index + 1))
      else (prev_offset, index))"

text \<open>Lines 449--453: whole elements inside the block; with an element size of 0 it never ends.\<close>

partial_function (option) eof_step ::
  "64 word \<Rightarrow> 64 word \<Rightarrow> 64 word \<Rightarrow> 64 word \<Rightarrow> 64 word \<Rightarrow> 64 word \<Rightarrow> 64 word option" where
  "eof_step es in_offset blocklen offset k prev_offset =
     (if sint offset \<le> sint in_offset \<and> k \<le> blocklen
      then eof_step es in_offset blocklen (offset + es) (k + es) offset
      else Some prev_offset)"

text \<open>
  \<open>None\<close> inside is "no change of \<open>*out_offset\<close>". \<open>in_offset / f_view_extent\<close> is a signed division;
  \<open>f_decoded_iov[index - 1]\<close> with \<open>index\<close> 0 is outside the array.
\<close>

definition mca_io_bbview_file_get_eof_offset :: "fview \<Rightarrow> 64 word \<Rightarrow> 64 word option option" where
  "mca_io_bbview_file_get_eof_offset fv in_offset_arg =
     (let in_offset = in_offset_arg - f_disp fv in
      if f_view_size fv = 0 then Some None
      else do {
        q \<leftarrow> c_div (sint in_offset) (sint (f_view_extent fv));
        let start_offset = of_int q * f_view_extent fv;
        let (prev, index) = eof_block (take (unat (f_iov_count fv)) (f_decoded_iov fv)) in_offset start_offset 0 0 0;
        e \<leftarrow> (if index = 0 then None else rd (f_decoded_iov fv) (index - 1));
        out \<leftarrow> eof_step (f_etype_size fv) in_offset (iov_len e) prev 0 prev;
        Some (Some out) })"

section \<open>Seeking\<close>

datatype whence = MPI_SEEK_SET | MPI_SEEK_CUR | MPI_SEEK_END | Whence_other

record 'x pos_env =
  lib_get_position :: "ompio_file \<Rightarrow> 'x \<Rightarrow> rc \<times> 64 word"
  lib_get_file_size :: "ompio_file \<Rightarrow> 'x \<Rightarrow> rc \<times> 64 word"
  set_explicit_offset :: "64 word \<Rightarrow> 'x lib_call"
  sharedfp_seek :: "64 word \<Rightarrow> whence \<Rightarrow> 'x lib_call"
  sharedfp_position :: "ompio_file \<Rightarrow> 'x \<Rightarrow> rc \<times> 64 word"

text \<open>
  Lines 469--500: the target in bytes, or a refusal. For \<open>MPI_SEEK_END\<close> the size of the file
  is turned into an offset even when asking for it failed.
\<close>

definition seek_target :: "'x pos_env \<Rightarrow> ompio_file \<Rightarrow> 'x \<Rightarrow> 64 word \<Rightarrow> whence \<Rightarrow> 64 word option option" where
  "seek_target env fh l off whence =
     (let es = f_etype_size (f_fview fh); offset = off * es in
      case whence of
        MPI_SEEK_SET \<Rightarrow> Some (if sint offset < 0 then None else Some offset)
      | MPI_SEEK_CUR \<Rightarrow>
          (let offset' = offset + snd (lib_get_position env fh l) * es in
           Some (if sint offset' < 0 then None else Some offset'))
      | MPI_SEEK_END \<Rightarrow> do {
          let (ret, temp_offset2) = lib_get_file_size env fh l;
          eof \<leftarrow> mca_io_bbview_file_get_eof_offset (f_fview fh) temp_offset2;
          let offset' = offset + (case eof of None \<Rightarrow> 0 | Some x \<Rightarrow> x);
          Some (if sint offset' < 0 \<or> ret \<noteq> OMPI_SUCCESS then None else Some offset') }
      | Whence_other \<Rightarrow> Some None)"

definition mca_io_bbview_file_seek :: "'x pos_env \<Rightarrow> 64 word \<Rightarrow> whence \<Rightarrow> 'x sys \<Rightarrow> (rc \<times> 'x sys) option" where
  "mca_io_bbview_file_seek env off whence s = do {
     s1 \<leftarrow> lock s;
     data \<leftarrow> data_of s1;
     target \<leftarrow> seek_target env (ompio_fh data) (lib s1) off whence;
     (case target of
        None \<Rightarrow> unlock_return OMPI_ERROR s1
      | Some offset \<Rightarrow>
          (let es = f_etype_size (f_fview (ompio_fh data)) in
           if es = 0 then None
           else do {
             (ret, s2) \<leftarrow> call_lib (set_explicit_offset env (offset div es)) s1;
             unlock_return ret s2 })) }"

definition mca_io_bbview_file_get_position :: "'x pos_env \<Rightarrow> 'x sys \<Rightarrow> ((rc \<times> 64 word) \<times> 'x sys) option" where
  "mca_io_bbview_file_get_position env s = do {
     s1 \<leftarrow> lock s;
     data \<leftarrow> data_of s1;
     unlock_return (lib_get_position env (ompio_fh data) (lib s1)) s1 }"

definition mca_io_bbview_file_seek_shared :: "'x pos_env \<Rightarrow> 64 word \<Rightarrow> whence \<Rightarrow> 'x sys \<Rightarrow> (rc \<times> 'x sys) option" where
  "mca_io_bbview_file_seek_shared env offset whence =
     need_sharedfp (locked_call (sharedfp_seek env offset whence))"

definition mca_io_bbview_file_get_position_shared ::
  "'x pos_env \<Rightarrow> 'x sys \<Rightarrow> ((rc \<times> 64 word option) \<times> 'x sys) option" where
  "mca_io_bbview_file_get_position_shared env s = do {
     data \<leftarrow> data_of s;
     (if \<not> f_sharedfp (ompio_fh data) then Some ((OMPI_ERROR, None), s)
      else do {
        s1 \<leftarrow> lock s;
        let (ret, offset) = sharedfp_position env (ompio_fh data) (lib s1);
        (if f_etype_size (f_fview (ompio_fh data)) = 0 then None
         else unlock_return (ret, Some (offset div f_etype_size (f_fview (ompio_fh data)))) s1) }) }"

section \<open>Facts\<close>

lemma byte_block_locate:
  "(\<forall>e \<in> set es. iov_len e \<noteq> 0) \<Longrightarrow> lens_sum es < 2 ^ 31 \<Longrightarrow> r < lens_sum es \<Longrightarrow>
   \<exists>j k. byte_block es (int r) index = Some (index + j, int k) \<and> j < length es \<and>
     locate es r = iov_base (es ! j) + of_nat k"
proof (induction es arbitrary: r index)
  case (Cons e es)
  have k: "to_int32 (iov_len e) = int (unat (iov_len e))"
    by (rule to_int32_small) (use Cons.prems(2) in simp)
  show ?case
  proof (cases "r < unat (iov_len e)")
    case True
    then show ?thesis using k by (intro exI [of _ 0] exI [of _ r]) (simp add: Let_def del: of_nat_unat)
  next
    case False
    let ?r = "r - unat (iov_len e)"
    have i: "int r - int (unat (iov_len e)) = int ?r" using False by simp
    have small: "i32 (int ?r) = Some (int ?r)" using Cons.prems(2,3) by (intro i32_Some) simp_all
    have rest: "?r < lens_sum es" "lens_sum es < 2 ^ 31" using False Cons.prems(2,3) by simp_all
    have step: "byte_block (e # es) (int r) index =
        (if ?r = 0 then Some (index + 1, 0) else byte_block es (int ?r) (index + 1))"
      using k False i small by (simp add: Let_def del: of_nat_diff of_nat_unat)
    show ?thesis
    proof (cases "?r = 0")
      case True
      then obtain e2 es2 where es: "es = e2 # es2" using rest by (cases es) simp_all
      have "0 < unat (iov_len e2)" using Cons.prems(1) es by (simp add: unat_gt_0)
      moreover have "byte_block (e # es) (int r) index = Some (index + 1, 0)" using step True by (simp del: byte_block.simps)
      moreover have "locate (e # es) r = locate es 0" using False True by simp
      ultimately show ?thesis using es by (intro exI [of _ 1] exI [of _ 0]) (simp del: byte_block.simps)
    next
      case nz: False
      obtain j k where jk: "byte_block es (int ?r) (index + 1) = Some (index + 1 + j, int k)" "j < length es"
          "locate es ?r = iov_base (es ! j) + of_nat k"
        using Cons.IH [OF _ rest(2,1), of "index + 1"] Cons.prems(1) by auto
      then show ?thesis using step nz False
        by (intro exI [of _ "Suc j"] exI [of _ k]) (simp del: byte_block.simps)
    qed
  qed
qed simp

lemma byte_offset_eq:
  assumes wf: "\<forall>e \<in> set (f_decoded_iov fv). iov_len e \<noteq> 0"
    and sz: "unat (f_view_size fv) = lens_sum (f_decoded_iov fv)" "0 < unat (f_view_size fv)" "unat (f_view_size fv) < 2 ^ 31"
    and small: "unat offset * unat (f_etype_size fv) < 2 ^ 64"
    and n: "n = unat offset * unat (f_etype_size fv)"
    and pos: "0 \<le> sint (f_view_extent fv * of_nat (n div unat (f_view_size fv)))"
  shows "byte_offset fv offset = Some (OMPI_SUCCESS, Some (view_byte (fv\<lparr>f_offset := f_disp fv\<rparr>) n))"
proof -
  let ?S = "unat (f_view_size fv)"
  have un: "unat (offset * f_etype_size fv) = n" using small n by (simp add: unat_mult_lem [THEN iffD1])
  have q: "offset * f_etype_size fv div f_view_size fv = of_nat (n div ?S)"
  proof -
    have "unat (offset * f_etype_size fv div f_view_size fv) = n div ?S" using un by (simp add: unat_div_distrib)
    moreover have "of_nat (unat x) = x" for x :: "64 word" by simp
    ultimately show ?thesis by metis
  qed
  have m: "unat (offset * f_etype_size fv mod f_view_size fv) = n mod ?S"
    using un by (simp add: unat_mod_distrib)
  have r: "n mod ?S < ?S" using sz(2) by simp
  have i: "to_int32 (offset * f_etype_size fv mod f_view_size fv) = int (n mod ?S)"
    unfolding m [symmetric] by (rule to_int32_small) (use m r sz(3) in linarith)
  obtain j k where jk: "byte_block (f_decoded_iov fv) (int (n mod ?S)) 0 = Some (j, int k)"
      "j < length (f_decoded_iov fv)" "locate (f_decoded_iov fv) (n mod ?S) = iov_base (f_decoded_iov fv ! j) + of_nat k"
    using byte_block_locate [OF wf, of "n mod ?S" 0] sz r by auto
  have "f_view_size fv \<noteq> 0" using sz(2) by auto
  moreover have "view_byte (fv\<lparr>f_offset := f_disp fv\<rparr>) n = f_disp fv + f_view_extent fv * of_nat (n div ?S) +
      iov_base (f_decoded_iov fv ! j) + of_nat k"
    using jk(3) sz(1) by (simp add: view_byte_def mult.commute add.assoc)
  ultimately show ?thesis
    using q i jk(1,2) pos by (simp add: byte_offset_def Let_def rd_def)
qed

lemma sint_nonneg_of_small: "unat (w :: 64 word) < 2 ^ 63 \<Longrightarrow> 0 \<le> sint w"
proof -
  assume lt: "unat w < 2 ^ 63"
  have "uint w < 2 ^ 63" using lt by (simp only: uint_nat of_nat_less_numeral_power_cancel_iff)
  moreover have "- (2 ^ 63) \<le> uint w"
  proof -
    have "- (2 ^ 63) \<le> (0::int)" by simp
    also have "0 \<le> uint w" by (rule unsigned_greater_eq)
    finally show ?thesis .
  qed
  ultimately have "signed_take_bit 63 (uint w) = uint w" by (intro signed_take_bit_int_eq_self)
  then show ?thesis by (simp add: sint_uint)
qed

lemma scale_position:
  assumes "unat x * unat es < 2 ^ 63" "(es :: 64 word) \<noteq> 0"
  shows "\<not> sint (x * es) < 0" and "x * es div es = x"
proof -
  have u: "unat (x * es) = unat x * unat es" using assms(1) by (intro unat_mult_lem [THEN iffD1]) simp
  then show "\<not> sint (x * es) < 0" using assms(1) sint_nonneg_of_small [of "x * es"] by simp
  have "unat es \<noteq> 0" using assms(2) by (simp add: unat_eq_zero)
  then have "unat (x * es div es) = unat x" using u by (simp add: unat_div_distrib)
  then show "x * es div es = x" by (metis word_unat_eq_iff)
qed

lemma locked_seek:
  assumes "unlocked s" "data_of s = Some d"
    and "seek_target env (ompio_fh d) (lib s) off whence = Some (Some offset)" "f_etype_size (f_fview (ompio_fh d)) \<noteq> 0"
  shows "mca_io_bbview_file_seek env off whence s =
    locked_call (set_explicit_offset env (offset div f_etype_size (f_fview (ompio_fh d)))) s"
proof -
  have l: "lock s = Some (s\<lparr>hd_file := (hd_file s)\<lparr>f_lock := True\<rparr>\<rparr>)" by (rule lock_unlocked [OF assms(1)])
  have "data_of (s\<lparr>hd_file := (hd_file s)\<lparr>f_lock := True\<rparr>\<rparr>) = Some d" using assms(2) by (simp add: data_of_def)
  then show ?thesis using l assms(3,4) by (simp add: mca_io_bbview_file_seek_def locked_call_def Let_def)
qed

section \<open>Properties\<close>

text \<open>C14: On a view whose blocks are not empty and sum up to its size below 2 GiB, the byte offset
  of a position is the address of that byte in the repeated view: the same map that the extents of
  the library callback follow. No step is undefined and the handle is unchanged.\<close>

theorem byte_offset_correct:
  assumes "unlocked s" "data_of s = Some d" "fv = f_fview (ompio_fh d)"
    and "\<forall>e \<in> set (f_decoded_iov fv). iov_len e \<noteq> 0"
    and "unat (f_view_size fv) = lens_sum (f_decoded_iov fv)" "0 < unat (f_view_size fv)" "unat (f_view_size fv) < 2 ^ 31"
    and "unat offset * unat (f_etype_size fv) < 2 ^ 64" "n = unat offset * unat (f_etype_size fv)"
    and "0 \<le> sint (f_view_extent fv * of_nat (n div unat (f_view_size fv)))"
  shows "mca_io_bbview_file_get_byte_offset offset s =
    Some ((OMPI_SUCCESS, Some (view_byte (fv\<lparr>f_offset := f_disp fv\<rparr>) n)), s)"
proof -
  have "byte_offset (f_fview (ompio_fh d)) offset = Some (OMPI_SUCCESS, Some (view_byte (fv\<lparr>f_offset := f_disp fv\<rparr>) n))"
    using byte_offset_eq [OF assms(4-10)] assms(3) by simp
  then show ?thesis using assms(1,2)
    by (simp add: mca_io_bbview_file_get_byte_offset_def handle_simps split: data_ptr.splits)
qed

theorem byte_offset_correct_witness:
  "mca_io_bbview_file_get_byte_offset 7 demo_sys = Some ((OMPI_SUCCESS, Some 117), demo_sys)"
proof -
  let ?fv = "f_fview (ompio_fh demo_data)"
  have fv: "?fv = example_view" by (simp add: demo_data_def demo_fh_def)
  have "mca_io_bbview_file_get_byte_offset 7 demo_sys =
      Some ((OMPI_SUCCESS, Some (view_byte (?fv\<lparr>f_offset := f_disp ?fv\<rparr>) 7)), demo_sys)"
    by (rule byte_offset_correct [OF demo_ok(3,4) refl])
       (unfold fv, simp_all add: example_view_def lens_sum_def)
  moreover have "view_byte (example_view\<lparr>f_offset := f_disp example_view\<rparr>) 7 = 117"
    by (simp add: view_byte_def example_view_def lens_sum_def)
  ultimately show ?thesis by (simp only: fv)
qed

text \<open>The offset inside the view is kept in an \<open>int\<close>: in a contiguous view of 4 GiB the position
  of byte 2147483648 is reported as the byte 2147483648 before the start of the file.\<close>

theorem byte_offset_truncates:
  "byte_offset (example_view\<lparr>f_decoded_iov := [\<lparr>iov_base = 0, iov_len = 4294967296\<rparr>], f_iov_count := 1, f_disp := 0,
       f_view_extent := 4294967296, f_view_size := 4294967296\<rparr>) 2147483648 =
     Some (OMPI_SUCCESS, Some (- 2147483648))"
  by (simp add: byte_offset_def example_view_def to_int32_def rd_def)

text \<open>C29: Seeking from the start or from the current position moves the individual pointer to
  exactly the element asked for, also backwards, as long as its byte offset is representable; the
  multiplication by the element size and the division cancel.\<close>

theorem seek_set_cur:
  assumes "unlocked s" "data_of s = Some d" "f_etype_size (f_fview (ompio_fh d)) \<noteq> 0"
    and "(whence = MPI_SEEK_SET \<and> x = off) \<or>
      (whence = MPI_SEEK_CUR \<and> x = off + snd (lib_get_position env (ompio_fh d) (lib s)))"
    and "unat x * unat (f_etype_size (f_fview (ompio_fh d))) < 2 ^ 63"
  shows "mca_io_bbview_file_seek env off whence s = locked_call (set_explicit_offset env x) s"
proof -
  let ?es = "f_etype_size (f_fview (ompio_fh d))"
  note sc = scale_position [OF assms(5,3)]
  have "seek_target env (ompio_fh d) (lib s) off whence = Some (Some (x * ?es))"
    using assms(4) sc(1) by (auto simp: seek_target_def Let_def distrib_right)
  from locked_seek [OF assms(1,2) this assms(3)] show ?thesis unfolding sc(2) .
qed

definition demo_pos :: "unit pos_env" where
  "demo_pos = \<lparr>lib_get_position = (\<lambda>_ _. (OMPI_SUCCESS, 5)), lib_get_file_size = (\<lambda>_ _. (OMPI_SUCCESS, 60)),
     set_explicit_offset = (\<lambda>_ fh l. (OMPI_SUCCESS, fh, l)), sharedfp_seek = (\<lambda>_ _ fh l. (OMPI_SUCCESS, fh, l)),
     sharedfp_position = (\<lambda>_ _. (OMPI_SUCCESS, 0))\<rparr>"

theorem seek_set_cur_witness:
  "mca_io_bbview_file_seek demo_pos (- 2) MPI_SEEK_CUR demo_sys = locked_call (set_explicit_offset demo_pos 3) demo_sys"
  by (rule seek_set_cur [OF demo_ok(3,4)])
     (simp_all add: demo_data_def demo_fh_def example_view_def demo_pos_def)

text \<open>A seek relative to the end of a file that ends before the displacement of the view reads
  the element before the first one of the block array.\<close>

theorem seek_end_before_view:
  assumes "unlocked s" "data_of s = Some d" "fv = f_fview (ompio_fh d)"
    and "f_view_size fv \<noteq> 0"
    and "sint (snd (lib_get_file_size env (ompio_fh d) (lib s)) - f_disp fv) < 0"
  shows "mca_io_bbview_file_seek env off MPI_SEEK_END s = None"
proof -
  obtain r sz where sz: "lib_get_file_size env (ompio_fh d) (lib s) = (r, sz)" by (rule prod.exhaust)
  let ?in = "snd (lib_get_file_size env (ompio_fh d) (lib s)) - f_disp fv"
  have "eof_block es ?in start 0 0 0 = (0, 0)" for es start using assms(5) by (cases es) simp_all
  then have "mca_io_bbview_file_get_eof_offset fv (snd (lib_get_file_size env (ompio_fh d) (lib s))) = None"
    using assms(4) by (cases "c_div (sint ?in) (sint (f_view_extent fv))")
      (simp_all add: mca_io_bbview_file_get_eof_offset_def Let_def)
  then have "seek_target env (ompio_fh d) (lib s) off MPI_SEEK_END = None"
    using assms(3) sz by (simp add: seek_target_def Let_def)
  then show ?thesis using assms(1,2)
    by (simp add: mca_io_bbview_file_seek_def handle_simps split: data_ptr.splits)
qed

theorem seek_end_before_view_witness: "mca_io_bbview_file_seek demo_pos 0 MPI_SEEK_END demo_sys = None"
  by (rule seek_end_before_view [OF demo_ok(3,4) refl])
     (simp_all add: demo_data_def demo_fh_def example_view_def demo_pos_def)

text \<open>The position of the end of the file uses the length of the block after the one it is in:
  with blocks of 4 and 2 bytes and a file that ends in the gap behind the first, the result is
  offset 2, although the block reaches up to offset 4.\<close>

theorem eof_offset_wrong_block:
  "mca_io_bbview_file_get_eof_offset example_view 107 = Some (Some 2)"
  by (simp add: mca_io_bbview_file_get_eof_offset_def example_view_def c_div_def eof_step.simps rd_def)

text \<open>With an element size of 0 nothing changes from one round to the next.\<close>

lemma eof_step_zero_aux:
  assumes ret: "eof_step es in_offset blocklen offset k prev = Some y"
  shows "\<not> (es = 0 \<and> sint offset \<le> sint in_offset \<and> k \<le> blocklen)"
proof (rule eof_step.raw_induct
    [where P = "\<lambda>es in_offset blocklen offset k prev y. \<not> (es = 0 \<and> sint offset \<le> sint in_offset \<and> k \<le> blocklen)", OF _ ret])
  fix f es in_offset blocklen offset k prev y
  assume IH: "\<And>es in_offset blocklen offset k prev y. f es in_offset blocklen offset k prev = Some y \<Longrightarrow>
      \<not> (es = 0 \<and> sint offset \<le> sint in_offset \<and> k \<le> blocklen)"
    and eq: "(if sint offset \<le> sint in_offset \<and> k \<le> blocklen
      then f es in_offset blocklen (offset + es) (k + es) offset else Some prev) = Some y"
  show "\<not> (es = 0 \<and> sint offset \<le> sint in_offset \<and> k \<le> blocklen)"
  proof
    assume stuck: "es = 0 \<and> sint offset \<le> sint in_offset \<and> k \<le> blocklen"
    then have "f es in_offset blocklen offset k offset = Some y" using eq by simp
    from IH [OF this] show False using stuck by blast
  qed
qed

lemma sint_small64:
  assumes "unat (x :: 64 word) < 2 ^ 63"
  shows "sint x = int (unat x)"
proof -
  have i: "uint x < 2 ^ 63"
    using assms by (simp only: uint_nat of_nat_less_numeral_power_cancel_iff)
  have "signed_take_bit 63 (uint x) = uint x"
  proof (rule signed_take_bit_int_eq_self)
    have "- (2 ^ 63) \<le> (0::int)" by simp
    also have "0 \<le> uint x" by (rule unsigned_greater_eq)
    finally show "- (2 ^ 63) \<le> uint x" .
  qed (rule i)
  then show ?thesis by (simp add: sint_uint)
qed

lemma sint_add_nat64:
  assumes "unat (w :: 64 word) < 2 ^ 63" "sint x + int (unat w) < 2 ^ 63"
  shows "sint (x + w) = sint x + int (unat w)"
proof -
  have "- (2 ^ 63) \<le> sint x" using sint_ge [of x] by simp
  moreover have "0 \<le> int (unat w)" by (rule of_nat_0_le_iff)
  ultimately have "- (2 ^ 63) \<le> sint x + int (unat w)" by linarith
  then show ?thesis using assms sint_small64 [OF assms(1)]
    by (simp add: sint_word_ariths signed_take_bit_int_eq_self)
qed

lemma int_div_mult_le: "0 < (e :: int) \<Longrightarrow> c div e * e \<le> c"
  using div_mult_mod_eq [of c e] pos_mod_sign [of e c] by linarith

lemma int_mult_le_iff:
  assumes "0 < (e :: int)"
  shows "k * e \<le> c \<longleftrightarrow> k \<le> c div e"
proof
  assume "k * e \<le> c"
  from zdiv_mono1 [OF this assms] show "k \<le> c div e" using assms by simp
next
  assume "k \<le> c div e"
  then have "k * e \<le> c div e * e" using assms by (intro mult_right_mono) simp_all
  then show "k * e \<le> c" using int_div_mult_le [OF assms, of c] by linarith
qed

text \<open>The number of elements that the loop goes on by.\<close>

definition eof_elements :: "int \<Rightarrow> int \<Rightarrow> int \<Rightarrow> nat" where
  "eof_elements es blocklen avail = nat (min (avail div es) (blocklen div es))"

lemma eof_step_from:
  assumes es: "es \<noteq> 0" and le: "sint offset \<le> sint in_offset"
    and room: "sint offset + int (unat blocklen) + int (unat es) < 2 ^ 63" "int (unat blocklen) + int (unat es) < 2 ^ 63"
    and M: "M = eof_elements (int (unat es)) (int (unat blocklen)) (sint in_offset - sint offset)" and m: "m \<le> Suc M"
  shows "eof_step es in_offset blocklen (offset + of_nat m * es) (of_nat m * es) p =
    Some (if m = Suc M then p else offset + of_nat M * es)"
  using m
proof (induction "Suc M - m" arbitrary: m p)
  let ?e = "int (unat es)" and ?b = "int (unat blocklen)" and ?a = "sint in_offset - sint offset"
  have "0 < unat es" using es by (simp add: unat_gt_0)
  then have e: "0 < ?e" by (simp only: of_nat_0_less_iff)
  have q: "0 \<le> ?a div ?e" "0 \<le> ?b div ?e"
    using e le by (simp_all add: pos_imp_zdiv_nonneg_iff)
  have Mi: "int M = min (?a div ?e) (?b div ?e)" using q by (simp add: M eof_elements_def)
  have mult: "int k * ?e \<le> ?b + ?e" if "k \<le> Suc M" for k
  proof -
    have "int k - 1 \<le> ?b div ?e" using that Mi by linarith
    then have "(int k - 1) * ?e \<le> ?b div ?e * ?e" using e by (intro mult_right_mono) simp_all
    also have "\<dots> \<le> ?b" by (rule int_div_mult_le [OF e])
    finally show ?thesis by (simp add: algebra_simps)
  qed
  have un: "int (unat (of_nat k * es)) = int k * ?e" if "k \<le> Suc M" for k
  proof -
    have lt: "int k * ?e < 2 ^ 63" using mult [OF that] room(2) by linarith
    have "int (k * unat es) < 2 ^ 63" unfolding of_nat_mult by (rule lt)
    then have nk: "k * unat es < 2 ^ 63" by (simp only: of_nat_less_numeral_power_cancel_iff)
    have "k \<le> k * unat es" using \<open>0 < unat es\<close> by (metis Suc_leI One_nat_def mult_le_mono2 nat_mult_1_right)
    then have "k < 2 ^ 63" using nk by (rule order.strict_trans1)
    then have "k < 2 ^ 64" by simp
    then have "unat (of_nat k :: 64 word) = k" by (simp add: unat_of_nat)
    then have "unat (of_nat k * es) = k * unat es" using nk by (simp add: unat_word_ariths)
    then show ?thesis by simp
  qed
  have at: "sint (offset + of_nat k * es) = sint offset + int k * ?e" if "k \<le> Suc M" for k
  proof -
    have "int (unat (of_nat k * es)) < 2 ^ 63"
      unfolding un [OF that] by (rule order.strict_trans1 [OF mult [OF that] room(2)])
    then have small: "unat (of_nat k * es) < 2 ^ 63" by (simp only: of_nat_less_numeral_power_cancel_iff)
    have "sint offset + int k * ?e \<le> sint offset + (?b + ?e)" using mult [OF that] by (rule add_left_mono)
    also have "\<dots> < 2 ^ 63" using room(1) by (simp only: add.assoc)
    finally show ?thesis using sint_add_nat64 [OF small, of offset] by (simp only: un [OF that])
  qed
  have div_iff: "int k * ?e \<le> c \<longleftrightarrow> int k \<le> c div ?e" for k c by (rule int_mult_le_iff [OF e])
  have cond: "sint (offset + of_nat k * es) \<le> sint in_offset \<and> of_nat k * es \<le> blocklen \<longleftrightarrow> k \<le> M" if "k \<le> Suc M" for k
  proof -
    have "of_nat k * es \<le> blocklen \<longleftrightarrow> int k * ?e \<le> ?b" 
      unfolding un [OF that, symmetric] word_le_nat_alt of_nat_le_iff ..
    moreover have "sint (offset + of_nat k * es) \<le> sint in_offset \<longleftrightarrow> int k * ?e \<le> ?a" using at [OF that] by linarith
    ultimately show ?thesis using Mi div_iff [of k ?a] div_iff [of k ?b] by linarith
  qed
  {
    case 0
    then have "m = Suc M" by simp
    moreover have "\<not> (sint (offset + of_nat m * es) \<le> sint in_offset \<and> of_nat m * es \<le> blocklen)"
      using cond [of m] \<open>m = Suc M\<close> by simp
    ultimately show ?case by (subst eof_step.simps) (simp only: if_False if_True simp_thms)
  next
    case (Suc d)
    then have m: "m \<le> M" by simp
    then have c: "sint (offset + of_nat m * es) \<le> sint in_offset \<and> of_nat m * es \<le> blocklen" using cond [of m] by simp
    have nx: "offset + of_nat m * es + es = offset + of_nat (Suc m) * es" "of_nat m * es + es = of_nat (Suc m) * es"
      by (simp_all add: algebra_simps)
    have "eof_step es in_offset blocklen (offset + of_nat m * es) (of_nat m * es) p =
        eof_step es in_offset blocklen (offset + of_nat (Suc m) * es) (of_nat (Suc m) * es) (offset + of_nat m * es)"
      using c by (subst eof_step.simps) (simp only: nx simp_thms if_True)
    also have "\<dots> = Some (if Suc m = Suc M then offset + of_nat m * es else offset + of_nat M * es)"
      by (rule Suc.hyps(1)) (use Suc.hyps(2) m in simp_all)
    finally show ?case using m by auto
  }
qed

text \<open>C28: The loop that walks the elements of a block ends when the element size is not 0 and block and offset
  stay within the signed 64-bit range. A block that starts behind the end of the file leaves the previous
  offset. Otherwise the result is the last element boundary of the block that does not lie behind the end of
  the file, where the end of the block counts as a boundary: a file that reaches at least to the
  end of a block of whole elements gives that end, the first byte that no longer belongs to the
  block, because the loop tests \<open>k <= blocklen\<close>. With an element size of 0 it never ends as
  soon as it is entered.\<close>

theorem eof_step_result:
  assumes "es \<noteq> 0" "sint offset + int (unat blocklen) + int (unat es) < 2 ^ 63" "int (unat blocklen) + int (unat es) < 2 ^ 63"
  shows "eof_step es in_offset blocklen offset 0 prev =
      Some (if sint offset \<le> sint in_offset
            then offset + of_nat (eof_elements (int (unat es)) (int (unat blocklen)) (sint in_offset - sint offset)) * es
            else prev) \<and>
    (sint offset + int (unat blocklen) \<le> sint in_offset \<and> unat es dvd unat blocklen \<longrightarrow>
      eof_step es in_offset blocklen offset 0 prev = Some (offset + blocklen)) \<and>
    (sint offset \<le> sint in_offset \<longrightarrow> eof_step 0 in_offset blocklen offset 0 prev = None)"
proof (intro conjI impI)
  let ?M = "eof_elements (int (unat es)) (int (unat blocklen)) (sint in_offset - sint offset)"
  show main: "eof_step es in_offset blocklen offset 0 prev = Some (if sint offset \<le> sint in_offset then offset + of_nat ?M * es else prev)"
  proof (cases "sint offset \<le> sint in_offset")
    case True
    from eof_step_from [OF assms(1) True assms(2,3) refl, of 0 prev] show ?thesis using True by simp
  next
    case False
    then show ?thesis by (subst eof_step.simps) simp
  qed
  show "eof_step es in_offset blocklen offset 0 prev = Some (offset + blocklen)"
    if full: "sint offset + int (unat blocklen) \<le> sint in_offset \<and> unat es dvd unat blocklen"
  proof -
    obtain k where k: "unat blocklen = unat es * k" using full by blast
    have "0 < unat es" using assms(1) by (simp add: unat_gt_0)
    then have e: "0 < int (unat es)" by (simp only: of_nat_0_less_iff)
    have bd: "int (unat blocklen) div int (unat es) = int k" using k e by simp
    have "int (unat blocklen) div int (unat es) \<le> (sint in_offset - sint offset) div int (unat es)"
      using full e by (intro zdiv_mono1) linarith+
    then have "?M = k" using bd by (simp add: eof_elements_def min_def)
    moreover have "of_nat k * es = blocklen"
    proof -
      have "(of_nat (unat blocklen) :: 64 word) = of_nat (unat es * k)" using k by (rule arg_cong)
      also have "\<dots> = of_nat (unat es) * of_nat k" by (rule of_nat_mult)
      finally show ?thesis unfolding of_nat_unat ucast_id by (simp only: mult.commute)
    qed
    moreover have "sint offset \<le> sint in_offset" using full by linarith
    ultimately show ?thesis using main by simp
  qed
  show "eof_step 0 in_offset blocklen offset 0 prev = None" if "sint offset \<le> sint in_offset"
    using eof_step_zero_aux [of 0 in_offset blocklen offset 0 prev] that
    by (cases "eof_step 0 in_offset blocklen offset 0 prev") auto
qed

theorem eof_step_result_witness:
  "eof_step 2 7 6 4 0 0 = Some 6 \<and> eof_step 2 100 6 4 0 0 = Some 10 \<and> eof_step 2 3 6 4 0 1 = Some 1 \<and>
   eof_step 0 7 6 4 0 0 = None"
  using eof_step_result [of 2 4 6 7 0] eof_step_result [of 2 4 6 100 0] eof_step_result [of 2 4 6 3 1]
  by (simp add: eof_elements_def)

end
