(* ===== verification/BBV_Prealloc.thy ===== *)
theory BBV_Prealloc
  imports BBV_Handle
begin

text \<open>
  \<open>mca_io_bbview_file_preallocate\<close> (\<open>io_bbview_file_open.c\<close> lines 112--231): the root process
  reads the file in buffers of \<open>OMPIO_PREALLOC_MAX_BUF_SIZE\<close> bytes and writes them back, then
  writes zeros up to the wanted size. The collectives, the file system module and the reads
  and writes of the library are parameters; the properties instantiate them with a flat file that has
  one file pointer. Offsets are integers with the range of \<open>OMPI_MPI_OFFSET_TYPE\<close> checked;
  \<open>cycles\<close> is converted to \<open>int\<close>.
\<close>

section \<open>The program\<close>

definition OMPIO_PREALLOC_MAX_BUF_SIZE :: int where
  "OMPIO_PREALLOC_MAX_BUF_SIZE = 33554432"

text \<open>\<open>pre_read n buf\<close> is a read of \<open>n\<close> bytes into \<open>buf\<close>, which it returns;
  \<open>pre_malloc\<close> is the block that \<open>malloc\<close> hands out, with whatever bytes it holds.\<close>

record 'x pre_env =
  ompio_root :: int
  pre_bcast :: "int \<Rightarrow> 'x \<Rightarrow> rc \<times> int"
  pre_get_size :: "ompio_file \<Rightarrow> 'x \<Rightarrow> rc \<times> int"
  pre_position :: "ompio_file \<Rightarrow> 'x \<Rightarrow> int"
  pre_malloc :: "string option"
  pre_read :: "nat \<Rightarrow> string \<Rightarrow> ompio_file \<Rightarrow> 'x \<Rightarrow> rc \<times> string \<times> ompio_file \<times> 'x"
  pre_write :: "string \<Rightarrow> 'x lib_call"
  pre_seek :: "int \<Rightarrow> 'x lib_call"
  pre_bcast_ret :: "rc \<Rightarrow> 'x \<Rightarrow> rc"
  pre_set_size :: "int \<Rightarrow> 'x lib_call"

definition cycles_of :: "int \<Rightarrow> int option" where
  "cycles_of sz = do {
     t \<leftarrow> i64 (sz + OMPIO_PREALLOC_MAX_BUF_SIZE);
     n \<leftarrow> c_div (t - 1) OMPIO_PREALLOC_MAX_BUF_SIZE;
     Some (to_int32 (of_int n)) }"

text \<open>Lines 176--193: read a buffer, write it; both move the file pointer.\<close>

fun copy_cycles ::
  "'x pre_env \<Rightarrow> int \<Rightarrow> nat \<Rightarrow> string \<Rightarrow> int \<Rightarrow> ompio_file \<Rightarrow> 'x \<Rightarrow> rc \<times> int \<times> ompio_file \<times> 'x" where
  "copy_cycles env sz 0 buf written fh l = (OMPI_SUCCESS, written, fh, l)"
| "copy_cycles env sz (Suc k) buf written fh l =
     (let len = min OMPIO_PREALLOC_MAX_BUF_SIZE (sz - written);
          (ret, buf1, fh1, l1) = pre_read env (nat len) buf fh l in
      if ret \<noteq> OMPI_SUCCESS then (ret, written, fh1, l1)
      else
        (let (ret, fh2, l2) = pre_write env (take (nat len) buf1) fh1 l1 in
         if ret \<noteq> OMPI_SUCCESS then (ret, written, fh2, l2)
         else copy_cycles env sz k buf1 (written + len) fh2 l2))"

text \<open>Lines 200--212: zeros up to \<open>diskspace\<close>.\<close>

fun zero_cycles ::
  "'x pre_env \<Rightarrow> int \<Rightarrow> nat \<Rightarrow> int \<Rightarrow> ompio_file \<Rightarrow> 'x \<Rightarrow> rc \<times> ompio_file \<times> 'x" where
  "zero_cycles env diskspace 0 written fh l = (OMPI_SUCCESS, fh, l)"
| "zero_cycles env diskspace (Suc k) written fh l =
     (let len = min OMPIO_PREALLOC_MAX_BUF_SIZE (diskspace - written);
          (ret, fh1, l1) = pre_write env (replicate (nat len) (CHR 0x00)) fh l in
      if ret \<noteq> OMPI_SUCCESS then (ret, fh1, l1)
      else zero_cycles env diskspace k (written + len) fh1 l1)"

text \<open>Lines 153--217, on the root: the pointer is put back only at the end of the last loop.\<close>

definition root_fill ::
  "'x pre_env \<Rightarrow> int \<Rightarrow> int \<Rightarrow> ompio_file \<Rightarrow> 'x \<Rightarrow> (rc \<times> ompio_file \<times> 'x) option" where
  "root_fill env diskspace current_size fh l = do {
     let prev_offset = pre_position env fh l;
     let sz = (if diskspace > current_size then current_size else diskspace);
     cycles \<leftarrow> cycles_of sz;
     (case pre_malloc env of
        None \<Rightarrow> Some (OMPI_ERR_OUT_OF_RESOURCE, fh, l)
      | Some buf \<Rightarrow> do {
        let (ret, written, fh1, l1) = copy_cycles env sz (nat cycles) buf 0 fh l;
        (if ret \<noteq> OMPI_SUCCESS then Some (ret, fh1, l1)
         else do {
           (ret, fh2, l2) \<leftarrow>
             (if diskspace > current_size then do {
                cycles \<leftarrow> cycles_of (diskspace - current_size);
                Some (zero_cycles env diskspace (nat cycles) written fh1 l1) }
              else Some (OMPI_SUCCESS, fh1, l1));
           (if ret \<noteq> OMPI_SUCCESS then Some (ret, fh2, l2)
            else (let (_, fh3, l3) = pre_seek env prev_offset fh2 l2 in Some (OMPI_SUCCESS, fh3, l3))) }) }) }"

text \<open>Lines 144--150 and 219--229, on the inner handle.\<close>

definition preallocate_body ::
  "'x pre_env \<Rightarrow> int \<Rightarrow> ompio_file \<Rightarrow> 'x \<Rightarrow> (rc \<times> ompio_file \<times> 'x) option" where
  "preallocate_body env diskspace fh l =
     (let (ret, tmp) = pre_bcast env diskspace l in
      if ret \<noteq> OMPI_SUCCESS then Some (OMPI_ERROR, fh, l)
      else if tmp \<noteq> diskspace then Some (OMPI_ERROR, fh, l)
      else
        (let (ret, current_size) = pre_get_size env fh l in
         if ret \<noteq> OMPI_SUCCESS then Some (OMPI_ERROR, fh, l)
         else if current_size > diskspace then Some (OMPI_SUCCESS, fh, l)
         else do {
           (ret, fh1, l1) \<leftarrow> (if f_rank fh = ompio_root env then root_fill env diskspace current_size fh l
                              else Some (OMPI_SUCCESS, fh, l));
           let ret = pre_bcast_ret env ret l1;
           let (_, fh2, l2) = (if diskspace > current_size then pre_set_size env diskspace fh1 l1
                               else (OMPI_SUCCESS, fh1, l1));
           Some (ret, fh2, l2) }))"

definition mca_io_bbview_file_preallocate :: "'x pre_env \<Rightarrow> int \<Rightarrow> 'x sys \<Rightarrow> (rc \<times> 'x sys) option" where
  "mca_io_bbview_file_preallocate env diskspace s = do {
     s1 \<leftarrow> lock s;
     data \<leftarrow> data_of s1;
     (ret, fh, l) \<leftarrow> preallocate_body env diskspace (ompio_fh data) (lib s1);
     unlock_return ret (put_data (data\<lparr>ompio_fh := fh\<rparr>) (s1\<lparr>lib := l\<rparr>)) }"

section \<open>A flat file\<close>

record flat =
  bytes :: string
  fpos :: nat

definition put_at :: "nat \<Rightarrow> string \<Rightarrow> string \<Rightarrow> string" where
  "put_at p d f = take p (f @ replicate (p - length f) (CHR 0x00)) @ d @ drop (p + length d) f"

definition flat_env :: "flat pre_env" where
  "flat_env =
     \<lparr>ompio_root = 0, pre_bcast = (\<lambda>x _. (OMPI_SUCCESS, x)), pre_get_size = (\<lambda>_ l. (OMPI_SUCCESS, int (length (bytes l)))),
      pre_position = (\<lambda>_ l. int (fpos l)), pre_malloc = Some (replicate (nat OMPIO_PREALLOC_MAX_BUF_SIZE) (CHR 0x00)),
      pre_read = (\<lambda>n buf fh l.
        (let d = take n (drop (fpos l) (bytes l))
         in (OMPI_SUCCESS, d @ drop (length d) buf, fh, l\<lparr>fpos := fpos l + length d\<rparr>))),
      pre_write = (\<lambda>d fh l. (OMPI_SUCCESS, fh, l\<lparr>bytes := put_at (fpos l) d (bytes l), fpos := fpos l + length d\<rparr>)),
      pre_seek = (\<lambda>x fh l. (OMPI_SUCCESS, fh, l\<lparr>fpos := nat x\<rparr>)),
      pre_bcast_ret = (\<lambda>r _. r),
      pre_set_size = (\<lambda>n fh l. (OMPI_SUCCESS, fh, l\<lparr>bytes := take (nat n) (bytes l @ replicate (nat n - length (bytes l)) (CHR 0x00))\<rparr>))\<rparr>"

lemma put_at_end: "p = length f \<Longrightarrow> put_at p d f = f @ d"
  by (simp add: put_at_def)

lemma put_at_over: "put_at (length a) d (a @ b) = a @ d @ drop (length d) b"
  by (simp add: put_at_def)

lemma cycles_of_small:
  assumes "0 \<le> sz" "sz \<le> 2 ^ 55"
  shows "cycles_of sz = Some ((sz + OMPIO_PREALLOC_MAX_BUF_SIZE - 1) div OMPIO_PREALLOC_MAX_BUF_SIZE)"
proof -
  let ?B = "OMPIO_PREALLOC_MAX_BUF_SIZE"
  define q where "q = (sz + ?B - 1) div ?B"
  have B: "?B = 33554432" by (simp add: OMPIO_PREALLOC_MAX_BUF_SIZE_def)
  have q: "0 \<le> q" "q < 2 ^ 31" using assms by (auto simp: q_def B)
  have "of_int q = (of_nat (nat q) :: 64 word)" using q(1) by simp
  moreover have "nat q < 2 ^ 31" using q by simp
  ultimately have u: "unat (of_int q :: 64 word) = nat q" by (simp add: unat_of_nat)
  have "to_int32 (of_int q) = q" by (subst to_int32_small) (use q u in simp_all)
  moreover have "i64 (sz + ?B) = Some (sz + ?B)" using assms by (intro i64_Some) (simp_all add: B)
  moreover have "c_div (sz + ?B - 1) ?B = Some q"
    using assms(1) by (simp add: c_div_def q_def B sdiv_nonneg)
  ultimately show ?thesis by (simp add: cycles_of_def q_def)
qed

lemma flat_sel [simp]:
  "pre_read flat_env n buf fh l =
     (OMPI_SUCCESS, take n (drop (fpos l) (bytes l)) @ drop (length (take n (drop (fpos l) (bytes l)))) buf, fh,
      l\<lparr>fpos := fpos l + length (take n (drop (fpos l) (bytes l)))\<rparr>)"
  "pre_write flat_env d fh l =
     (OMPI_SUCCESS, fh, l\<lparr>bytes := put_at (fpos l) d (bytes l), fpos := fpos l + length d\<rparr>)"
  "pre_malloc flat_env = Some (replicate (nat OMPIO_PREALLOC_MAX_BUF_SIZE) (CHR 0x00))"
  "pre_position flat_env fh l = int (fpos l)"
  "pre_seek flat_env x fh l = (OMPI_SUCCESS, fh, l\<lparr>fpos := nat x\<rparr>)"
  "ompio_root flat_env = 0"
  "pre_bcast flat_env x l = (OMPI_SUCCESS, x)"
  "pre_bcast_ret flat_env r l = r"
  "pre_get_size flat_env fh l = (OMPI_SUCCESS, int (length (bytes l)))"
  by (simp_all add: flat_env_def Let_def)

lemma copy_step:
  assumes "m = nat (min OMPIO_PREALLOC_MAX_BUF_SIZE (sz - written))" "d = take m (drop (fpos l) (bytes l))"
    and "buf1 = d @ drop (length d) buf" "w = take m buf1"
  shows "copy_cycles flat_env sz (Suc k) buf written fh l =
    copy_cycles flat_env sz k buf1 (written + min OMPIO_PREALLOC_MAX_BUF_SIZE (sz - written)) fh
      (l\<lparr>bytes := put_at (fpos l + length d) w (bytes l), fpos := fpos l + length d + length w\<rparr>)"
  unfolding assms(4) assms(3) assms(2) assms(1)
  by (simp add: Let_def del: take_append length_take length_append)

text \<open>The zeros are appended when the pointer is at the end of the file.\<close>

lemma zero_cycles_flat:
  assumes "fpos l = length (bytes l)" "0 \<le> diskspace - written"
    and "diskspace - written \<le> int k * OMPIO_PREALLOC_MAX_BUF_SIZE"
  shows "zero_cycles flat_env diskspace k written fh l =
    (OMPI_SUCCESS, fh, \<lparr>bytes = bytes l @ replicate (nat (diskspace - written)) (CHR 0x00),
       fpos = fpos l + nat (diskspace - written)\<rparr>)"
  using assms
proof (induction k arbitrary: written l)
  case (Suc k)
  let ?len = "min OMPIO_PREALLOC_MAX_BUF_SIZE (diskspace - written)"
  have B: "0 < OMPIO_PREALLOC_MAX_BUF_SIZE" by (simp add: OMPIO_PREALLOC_MAX_BUF_SIZE_def)
  have len: "0 \<le> ?len" "0 \<le> diskspace - (written + ?len)" using Suc.prems(2) B by simp_all
  have room: "diskspace - (written + ?len) \<le> int k * OMPIO_PREALLOC_MAX_BUF_SIZE"
    using Suc.prems(3) B by (auto simp: min_def algebra_simps)
  let ?l = "l\<lparr>bytes := bytes l @ replicate (nat ?len) (CHR 0x00), fpos := fpos l + nat ?len\<rparr>"
  have "nat ?len + nat (diskspace - (written + ?len)) = nat (diskspace - written)"
    using len by (simp add: nat_add_distrib [symmetric])
  moreover have "zero_cycles flat_env diskspace (Suc k) written fh l = zero_cycles flat_env diskspace k (written + ?len) fh ?l"
    using Suc.prems(1) by (simp add: Let_def put_at_end)
  moreover have "zero_cycles flat_env diskspace k (written + ?len) fh ?l =
    (OMPI_SUCCESS, fh, \<lparr>bytes = bytes ?l @ replicate (nat (diskspace - (written + ?len))) (CHR 0x00),
       fpos = fpos ?l + nat (diskspace - (written + ?len))\<rparr>)"
    using Suc.prems(1) by (intro Suc.IH [OF _ len(2) room]) simp
  ultimately show ?case by (simp add: replicate_add [symmetric] add.assoc)
qed (cases l, simp)

lemma cycles_enough:
  assumes "0 \<le> n"
  shows "n \<le> int (nat ((n + OMPIO_PREALLOC_MAX_BUF_SIZE - 1) div OMPIO_PREALLOC_MAX_BUF_SIZE)) * OMPIO_PREALLOC_MAX_BUF_SIZE"
proof -
  have B: "OMPIO_PREALLOC_MAX_BUF_SIZE = 33554432" by (simp add: OMPIO_PREALLOC_MAX_BUF_SIZE_def)
  let ?q = "(n + 33554432 - 1) div 33554432" and ?r = "(n + 33554432 - 1) mod 33554432"
  have "?q * 33554432 + ?r = n + 33554432 - 1" by (rule div_mult_mod_eq)
  moreover have "?r < 33554432" by simp
  moreover have "0 \<le> ?q" using assms by (intro pos_imp_zdiv_nonneg_iff [THEN iffD2]) simp_all
  ultimately show ?thesis by (simp only: B int_nat_eq if_True)
qed

text \<open>One cycle copies a file of at most one buffer behind itself.\<close>

lemma copy_cycles_flat:
  assumes "fpos l = 0" "int (length (bytes l)) \<le> OMPIO_PREALLOC_MAX_BUF_SIZE" "n = int (length (bytes l))"
    and "length buf = nat OMPIO_PREALLOC_MAX_BUF_SIZE"
    and k: "k = nat ((n + OMPIO_PREALLOC_MAX_BUF_SIZE - 1) div OMPIO_PREALLOC_MAX_BUF_SIZE)"
  shows "copy_cycles flat_env n k buf 0 fh l =
    (OMPI_SUCCESS, n, fh, \<lparr>bytes = bytes l @ bytes l, fpos = 2 * length (bytes l)\<rparr>)"
proof (cases "bytes l = []")
  case True
  then have "k = 0" using assms(3) k by (simp add: OMPIO_PREALLOC_MAX_BUF_SIZE_def)
  then show ?thesis using True assms(1,3) by (cases l) simp
next
  case False
  have B: "OMPIO_PREALLOC_MAX_BUF_SIZE = 33554432" by (simp add: OMPIO_PREALLOC_MAX_BUF_SIZE_def)
  have "0 < n" "n \<le> 33554432" using False assms(2,3) by (simp_all add: B)
  then have "(n + 33554432 - 1) div 33554432 = 1" by simp
  then have "k = 1" using k by (simp add: B)
  moreover have "min OMPIO_PREALLOC_MAX_BUF_SIZE (n - 0) = n" using assms(2,3) by simp
  ultimately show ?thesis using assms(1,3) by (cases l) (simp add: Let_def put_at_end)
qed

text \<open>Two cycles on a file of two buffers: the first one writes the first buffer over the
  second, the second one reads nothing and writes the buffer once more.\<close>

lemma copy_cycles_two:
  assumes a: "int (length a) = OMPIO_PREALLOC_MAX_BUF_SIZE" and b: "length b = length a" and buf: "length buf = length a"
  shows "copy_cycles flat_env (2 * OMPIO_PREALLOC_MAX_BUF_SIZE) 2 buf 0 fh \<lparr>bytes = a @ b, fpos = 0\<rparr> =
    (OMPI_SUCCESS, 2 * OMPIO_PREALLOC_MAX_BUF_SIZE, fh, \<lparr>bytes = a @ a @ a, fpos = 3 * length a\<rparr>)"
proof -
  let ?B = "OMPIO_PREALLOC_MAX_BUF_SIZE"
  have m: "min ?B (2 * ?B - 0) = ?B" "min ?B (2 * ?B - ?B) = ?B" using a by linarith+
  have n: "nat ?B = length a" using a by linarith
  have p: "put_at (length a) a (a @ b) = a @ a" using b by (simp add: put_at_over)
  have p2: "put_at (2 * length a) a (a @ a) = a @ a @ a" by (subst put_at_end) simp_all
  have "copy_cycles flat_env (2 * ?B) (Suc 1) buf 0 fh \<lparr>bytes = a @ b, fpos = 0\<rparr> =
      copy_cycles flat_env (2 * ?B) 1 a (0 + min ?B (2 * ?B - 0)) fh
        (\<lparr>bytes = a @ b, fpos = 0\<rparr>\<lparr>bytes := put_at (0 + length a) a (a @ b), fpos := 0 + length a + length a\<rparr>)"
    using copy_step [of "length a" "2 * ?B" 0 a "\<lparr>bytes = a @ b, fpos = 0\<rparr>" a buf a 1 fh] m n buf by (simp del: copy_cycles.simps)
  then have 1: "copy_cycles flat_env (2 * ?B) (Suc 1) buf 0 fh \<lparr>bytes = a @ b, fpos = 0\<rparr> =
      copy_cycles flat_env (2 * ?B) (Suc 0) a ?B fh \<lparr>bytes = a @ a, fpos = 2 * length a\<rparr>"
    using m p by (simp del: copy_cycles.simps add: mult_2 [of "length a"])
  have "copy_cycles flat_env (2 * ?B) (Suc 0) a ?B fh \<lparr>bytes = a @ a, fpos = 2 * length a\<rparr> =
      copy_cycles flat_env (2 * ?B) 0 a (?B + min ?B (2 * ?B - ?B)) fh
        (\<lparr>bytes = a @ a, fpos = 2 * length a\<rparr>\<lparr>bytes := put_at (2 * length a + 0) a (a @ a), fpos := 2 * length a + 0 + length a\<rparr>)"
    using copy_step [of "length a" "2 * ?B" ?B "[]" "\<lparr>bytes = a @ a, fpos = 2 * length a\<rparr>" a a a 0 fh] m n by (simp del: copy_cycles.simps)
  then show ?thesis using 1 m p2 by (simp add: numeral_2_eq_2 del: copy_cycles.simps(2))
qed

lemma root_fill_flat:
  assumes "fpos l = 0" "int (length (bytes l)) \<le> OMPIO_PREALLOC_MAX_BUF_SIZE" "n = int (length (bytes l))"
    and "n \<le> diskspace" "diskspace \<le> 2 ^ 55"
  shows "root_fill flat_env diskspace n fh l =
    Some (OMPI_SUCCESS, fh, \<lparr>bytes = bytes l @ bytes l @ replicate (nat (diskspace - n)) (CHR 0x00), fpos = 0\<rparr>)"
proof -
  let ?B = "OMPIO_PREALLOC_MAX_BUF_SIZE"
  have c1: "cycles_of n = Some ((n + ?B - 1) div ?B)" using assms(3-5) by (intro cycles_of_small) simp_all
  have c2: "cycles_of (diskspace - n) = Some ((diskspace - n + ?B - 1) div ?B)"
    using assms(3-5) by (intro cycles_of_small) simp_all
  have cc: "copy_cycles flat_env n (nat ((n + ?B - 1) div ?B)) (replicate (nat ?B) (CHR 0x00)) 0 fh l =
      (OMPI_SUCCESS, n, fh, \<lparr>bytes = bytes l @ bytes l, fpos = 2 * length (bytes l)\<rparr>)"
    by (rule copy_cycles_flat) (use assms in simp_all)
  have zc: "zero_cycles flat_env diskspace (nat ((diskspace - n + ?B - 1) div ?B)) n fh
        \<lparr>bytes = bytes l @ bytes l, fpos = 2 * length (bytes l)\<rparr> =
      (OMPI_SUCCESS, fh, \<lparr>bytes = (bytes l @ bytes l) @ replicate (nat (diskspace - n)) (CHR 0x00),
         fpos = 2 * length (bytes l) + nat (diskspace - n)\<rparr>)"
    by (subst zero_cycles_flat) (use assms(4) cycles_enough [of "diskspace - n"] in simp_all)
  have e: "pre_malloc flat_env = Some (replicate (nat ?B) (CHR 0x00))" "pre_position flat_env fh l = 0"
    "\<And>u. pre_seek flat_env 0 fh u = (OMPI_SUCCESS, fh, u\<lparr>fpos := 0\<rparr>)"
    using assms(1) by (simp_all add: flat_env_def)
  show ?thesis
  proof (cases "diskspace > n")
    case True
    then show ?thesis using c1 c2 cc zc e by (simp add: root_fill_def)
  next
    case False
    then have "diskspace = n" using assms(4) by simp
    then show ?thesis using c1 cc e by (simp add: root_fill_def)
  qed
qed

lemma preallocate_same_size:
  assumes "f_rank fh = 0" "root_fill flat_env n n fh l = Some (OMPI_SUCCESS, fh, l')" "n = int (length (bytes l))"
  shows "preallocate_body flat_env n fh l = Some (OMPI_SUCCESS, fh, l')"
  using assms by (simp add: preallocate_body_def)

section \<open>Properties\<close>

text \<open>C15: The one case in which preallocation does what it promises, on a flat file with one file
  pointer: on the root, with the pointer at the start of a file of at most one buffer (32 MiB) and a
  strictly larger size asked for, it succeeds, the file has exactly the size asked for, its
  old contents are kept at its start, and the file pointer is where it was. The space behind them
  begins with a second copy of the contents, as far as it goes, and only then come zeros. (For the same
  size, or a longer file, see \<open>preallocate_corrupts\<close>.)\<close>

theorem preallocate_extends:
  assumes "f_rank fh = 0" "fpos l = 0" "int (length (bytes l)) \<le> OMPIO_PREALLOC_MAX_BUF_SIZE"
    and "int (length (bytes l)) < diskspace" "diskspace \<le> 2 ^ 55"
  shows "\<exists>l'. preallocate_body flat_env diskspace fh l = Some (OMPI_SUCCESS, fh, l') \<and>
    int (length (bytes l')) = diskspace \<and> take (length (bytes l)) (bytes l') = bytes l \<and> fpos l' = fpos l \<and>
    bytes l' = take (nat diskspace) (bytes l @ bytes l @ replicate (nat diskspace - length (bytes l)) (CHR 0x00))"
proof -
  define n where "n = int (length (bytes l))"
  define all where "all = bytes l @ bytes l @ replicate (nat (diskspace - n)) (CHR 0x00)"
  have rf: "root_fill flat_env diskspace n fh l = Some (OMPI_SUCCESS, fh, \<lparr>bytes = all, fpos = 0\<rparr>)"
    unfolding all_def by (rule root_fill_flat [OF assms(2,3) n_def]) (use assms n_def in simp_all)
  have e: "pre_bcast flat_env diskspace l = (OMPI_SUCCESS, diskspace)" "pre_get_size flat_env fh l = (OMPI_SUCCESS, n)"
    "ompio_root flat_env = 0" "\<And>r x. pre_bcast_ret flat_env r x = r"
    by (simp_all add: flat_env_def n_def)
  have "nat diskspace \<le> length all" using assms(4) by (simp add: all_def n_def nat_diff_distrib)
  then have s: "pre_set_size flat_env diskspace fh \<lparr>bytes = all, fpos = 0\<rparr> =
      (OMPI_SUCCESS, fh, \<lparr>bytes = take (nat diskspace) all, fpos = 0\<rparr>)"
    by (simp add: flat_env_def)
  have "preallocate_body flat_env diskspace fh l = Some (OMPI_SUCCESS, fh, \<lparr>bytes = take (nat diskspace) all, fpos = 0\<rparr>)"
    using e rf s assms(1,4) by (simp add: preallocate_body_def n_def)
  moreover have "take (length (bytes l)) (take (nat diskspace) all) = bytes l"
    using assms(4) by (simp add: all_def min_def)
  moreover have "int (length (take (nat diskspace) all)) = diskspace"
    using \<open>nat diskspace \<le> length all\<close> assms(4) by (simp add: min_def)
  moreover have "all = bytes l @ bytes l @ replicate (nat diskspace - length (bytes l)) (CHR 0x00)"
    by (simp add: all_def n_def nat_diff_distrib')
  ultimately show ?thesis using assms(2) by (intro exI [of _ "\<lparr>bytes = take (nat diskspace) all, fpos = 0\<rparr>"]) (simp del: take_append)
qed

definition root_fh :: ompio_file where
  "root_fh = \<lparr>ompio_filename = [], fd = 3, f_amode = 8, f_rank = 0, f_fview = example_view,
      f_atomicity = 0, f_sharedfp = False, f_split_coll_in_use = False, f_split_coll_req = 0\<rparr>"

theorem preallocate_extends_witness:
  "\<exists>l'. preallocate_body flat_env 8 root_fh \<lparr>bytes = ''abc'', fpos = 0\<rparr> = Some (OMPI_SUCCESS, root_fh, l') \<and>
    bytes l' = ''abcabc'' @ [CHR 0x00, CHR 0x00] \<and> fpos l' = 0"
proof -
  have "replicate (8 - 3) (CHR 0x00) = [CHR 0x00, CHR 0x00, CHR 0x00, CHR 0x00, CHR 0x00]" by code_simp
  then show ?thesis
    using preallocate_extends [of root_fh "\<lparr>bytes = ''abc'', fpos = 0\<rparr>" 8]
    by (auto simp: OMPIO_PREALLOC_MAX_BUF_SIZE_def numeral_3_eq_3 root_fh_def)
qed

text \<open>C34: The write back does not go where the data came from, because reading has moved the file
  pointer. Preallocating the size that a file of one buffer or less already has doubles the file; in
  a file of two buffers the second one is overwritten by the first.\<close>

theorem preallocate_corrupts:
  assumes "f_rank fh = 0"
  shows "(int (length c) \<le> OMPIO_PREALLOC_MAX_BUF_SIZE \<longrightarrow>
      preallocate_body flat_env (int (length c)) fh \<lparr>bytes = c, fpos = 0\<rparr> =
        Some (OMPI_SUCCESS, fh, \<lparr>bytes = c @ c, fpos = 0\<rparr>)) \<and>
    (int (length a) = OMPIO_PREALLOC_MAX_BUF_SIZE \<and> length b = length a \<longrightarrow>
      preallocate_body flat_env (2 * OMPIO_PREALLOC_MAX_BUF_SIZE) fh \<lparr>bytes = a @ b, fpos = 0\<rparr> =
        Some (OMPI_SUCCESS, fh, \<lparr>bytes = a @ a @ a, fpos = 0\<rparr>))"
proof (intro conjI impI)
  assume c: "int (length c) \<le> OMPIO_PREALLOC_MAX_BUF_SIZE"
  then have "root_fill flat_env (int (length c)) (int (length c)) fh \<lparr>bytes = c, fpos = 0\<rparr> =
      Some (OMPI_SUCCESS, fh, \<lparr>bytes = c @ c, fpos = 0\<rparr>)"
    by (subst root_fill_flat) (simp_all add: OMPIO_PREALLOC_MAX_BUF_SIZE_def)
  then show "preallocate_body flat_env (int (length c)) fh \<lparr>bytes = c, fpos = 0\<rparr> =
        Some (OMPI_SUCCESS, fh, \<lparr>bytes = c @ c, fpos = 0\<rparr>)"
    by (rule preallocate_same_size [OF assms]) simp
next
  let ?B = "OMPIO_PREALLOC_MAX_BUF_SIZE"
  assume ab: "int (length a) = ?B \<and> length b = length a"
  have B: "?B = 33554432" by (simp add: OMPIO_PREALLOC_MAX_BUF_SIZE_def)
  have n: "nat ?B = length a" "2 * ?B = int (length (a @ b))" using ab by (metis nat_int, simp)
  have "copy_cycles flat_env (2 * ?B) 2 (replicate (nat ?B) (CHR 0x00)) 0 fh \<lparr>bytes = a @ b, fpos = 0\<rparr> =
      (OMPI_SUCCESS, 2 * ?B, fh, \<lparr>bytes = a @ a @ a, fpos = 3 * length a\<rparr>)"
    by (rule copy_cycles_two) (use ab n(1) in \<open>simp_all only: length_replicate\<close>)
  moreover have "cycles_of (2 * ?B) = Some 2" using cycles_of_small [of "2 * ?B"] by (simp add: B)
  ultimately have "root_fill flat_env (2 * ?B) (2 * ?B) fh \<lparr>bytes = a @ b, fpos = 0\<rparr> =
      Some (OMPI_SUCCESS, fh, \<lparr>bytes = a @ a @ a, fpos = 0\<rparr>)"
    by (simp add: root_fill_def)
  then show "preallocate_body flat_env (2 * ?B) fh \<lparr>bytes = a @ b, fpos = 0\<rparr> =
        Some (OMPI_SUCCESS, fh, \<lparr>bytes = a @ a @ a, fpos = 0\<rparr>)"
    by (rule preallocate_same_size [OF assms _ n(2) [THEN trans]]) simp
qed

theorem preallocate_corrupts_witness:
  "preallocate_body flat_env 3 root_fh \<lparr>bytes = ''abc'', fpos = 0\<rparr> =
     Some (OMPI_SUCCESS, root_fh, \<lparr>bytes = ''abcabc'', fpos = 0\<rparr>) \<and>
   preallocate_body flat_env (2 * OMPIO_PREALLOC_MAX_BUF_SIZE) root_fh
       \<lparr>bytes = replicate 33554432 (CHR ''a'') @ replicate 33554432 (CHR ''b''), fpos = 0\<rparr> =
     Some (OMPI_SUCCESS, root_fh,
       \<lparr>bytes = replicate 33554432 (CHR ''a'') @ replicate 33554432 (CHR ''a'') @ replicate 33554432 (CHR ''a''), fpos = 0\<rparr>)"
proof -
  have r: "f_rank root_fh = 0" by (simp add: root_fh_def)
  have "int (length ''abc'') = 3" "int (length ''abc'') \<le> OMPIO_PREALLOC_MAX_BUF_SIZE"
    by (simp_all add: OMPIO_PREALLOC_MAX_BUF_SIZE_def)
  moreover have "int (length (replicate 33554432 x)) = OMPIO_PREALLOC_MAX_BUF_SIZE" for x :: char
    by (simp only: length_replicate) (simp add: OMPIO_PREALLOC_MAX_BUF_SIZE_def)
  moreover have "''abc'' @ ''abc'' = ''abcabc''" by simp
  ultimately show ?thesis
    using preallocate_corrupts [OF r, of "''abc''" "replicate 33554432 (CHR ''a'')" "replicate 33554432 (CHR ''b'')"]
    by (metis length_replicate)
qed

end
