(* ===== verification/BBV_Params.thy ===== *)
theory BBV_Params
  imports BBV_SetView BBV_Text
begin

text \<open>
  The component as the MPI library sees it (\<open>io_bbview_component.c\<close>): its parameters and their
  defaults, the look-up function that the ompio library calls back
  (\<open>mca_io_bbview_get_mca_parameter_value\<close>, \<open>io_bbview.c\<close>), the private data that a file gets
  before it is opened, and the operations without a file. The registry of parameters and the ompio
  library are parameters of the model.
\<close>

section \<open>Parameters\<close>

definition OMPIO_DEFAULT_CYCLE_BUF_SIZE :: int where
  "OMPIO_DEFAULT_CYCLE_BUF_SIZE = 536870912"

definition OMPIO_DEFAULT_PIPELINE_BUF_SIZE :: int where
  "OMPIO_DEFAULT_PIPELINE_BUF_SIZE = 1048576"

definition default_bytes_per_agg :: int where
  "default_bytes_per_agg = 33554432"

text \<open>The variables of this component, lines 42--53, 86 and 87.\<close>

record bbview_params =
  priority_param :: int
  delete_priority_param :: int
  mca_io_bbview_record_offset_info :: int
  mca_io_bbview_coll_timing_info :: int
  mca_io_bbview_cycle_buffer_size :: int
  mca_io_bbview_pipeline_buffer_size :: int
  mca_io_bbview_bytes_per_agg :: int
  mca_io_bbview_num_aggregators :: int
  mca_io_bbview_grouping_option :: int
  mca_io_bbview_max_aggregators_ratio :: int
  mca_io_bbview_aggregators_cutoff_threshold :: int
  mca_io_bbview_overwrite_amode :: int
  mca_io_bbview_verbose_info_parsing :: int
  mca_io_bbview_use_accelerator_buffers :: int

text \<open>
  \<open>var_register name v\<close> is the value of a variable that holds \<open>v\<close> after it is registered under
  \<open>name\<close>: the value that the user gave, else \<open>v\<close>. Every variable is reset to its default first.
\<close>

definition register_component :: "(string \<Rightarrow> int \<Rightarrow> int) \<Rightarrow> bbview_params \<Rightarrow> rc \<times> bbview_params" where
  "register_component var_register p =
     (OMPI_SUCCESS,
      p\<lparr>priority_param := var_register ''priority'' 30,
        delete_priority_param := var_register ''delete_priority'' 30,
        mca_io_bbview_record_offset_info := var_register ''record_file_offset_info'' 0,
        mca_io_bbview_coll_timing_info := var_register ''coll_timing_info'' 0,
        mca_io_bbview_cycle_buffer_size := var_register ''cycle_buffer_size'' OMPIO_DEFAULT_CYCLE_BUF_SIZE,
        mca_io_bbview_pipeline_buffer_size := var_register ''pipeline_buffer_size'' OMPIO_DEFAULT_PIPELINE_BUF_SIZE,
        mca_io_bbview_bytes_per_agg := var_register ''bytes_per_agg'' default_bytes_per_agg,
        mca_io_bbview_num_aggregators := var_register ''num_aggregators'' (- 1),
        mca_io_bbview_grouping_option := var_register ''grouping_option'' 5,
        mca_io_bbview_max_aggregators_ratio := var_register ''max_aggregators_ratio'' 8,
        mca_io_bbview_aggregators_cutoff_threshold := var_register ''aggregators_cutoff_threshold'' 3,
        mca_io_bbview_overwrite_amode := var_register ''overwrite_amode'' 1,
        mca_io_bbview_verbose_info_parsing := var_register ''verbose_info_parsing'' 0,
        mca_io_bbview_use_accelerator_buffers := var_register ''use_accelerator_buffers'' 0\<rparr>)"

text \<open>
  The variables that the look-up returns are those of the ompio component
  (\<open>io_bbview.h\<close>, lines 50--61), not the ones registered above.
\<close>

record ompio_params =
  mca_io_ompio_verbose_info_parsing :: int
  mca_io_ompio_num_aggregators :: int
  mca_io_ompio_bytes_per_agg :: int
  mca_io_ompio_overwrite_amode :: int
  mca_io_ompio_cycle_buffer_size :: int
  mca_io_ompio_pipeline_buffer_size :: int
  mca_io_ompio_max_aggregators_ratio :: int
  mca_io_ompio_aggregators_cutoff_threshold :: int
  mca_io_ompio_grouping_option :: int
  mca_io_ompio_coll_timing_info :: int
  mca_io_ompio_use_accelerator_buffers :: int

text \<open>
  \<open>name_length\<close> becomes a \<open>size_t\<close> in the call of \<open>strncmp\<close>; \<open>err_max\<close> is the value of
  \<open>OMPI_ERR_MAX\<close>.
\<close>

definition mca_io_bbview_get_mca_parameter_value :: "int \<Rightarrow> ompio_params \<Rightarrow> string \<Rightarrow> int \<Rightarrow> int" where
  "mca_io_bbview_get_mca_parameter_value err_max p mca_parameter_name name_length =
     (let is = (\<lambda>s. strncmp_eq mca_parameter_name s (unat (of_int name_length :: 64 word))) in
      if is ''verbose_info_parsing'' then mca_io_ompio_verbose_info_parsing p
      else if is ''num_aggregators'' then mca_io_ompio_num_aggregators p
      else if is ''bytes_per_agg'' then mca_io_ompio_bytes_per_agg p
      else if is ''overwrite_amode'' then mca_io_ompio_overwrite_amode p
      else if is ''cycle_buffer_size'' then mca_io_ompio_cycle_buffer_size p
      else if is ''pipeline_buffer_size'' then mca_io_ompio_pipeline_buffer_size p
      else if is ''max_aggregators_ratio'' then mca_io_ompio_max_aggregators_ratio p
      else if is ''aggregators_cutoff_threshold'' then mca_io_ompio_aggregators_cutoff_threshold p
      else if is ''grouping_option'' then mca_io_ompio_grouping_option p
      else if is ''coll_timing_info'' then mca_io_ompio_coll_timing_info p
      else if is ''use_accelerator_buffers'' then mca_io_ompio_use_accelerator_buffers p
      else err_max)"

section \<open>Private data of a file\<close>

text \<open>What \<open>calloc\<close> leaves in the structure, before and after the two assignments.\<close>

definition zeroed_data :: bbview_data where
  "zeroed_data =
     \<lparr>ompio_fh = \<lparr>ompio_filename = [], fd = 0, f_amode = 0, f_rank = 0,
        f_fview = \<lparr>f_decoded_iov = [], f_iov_count = 0, f_offset = 0, f_disp = 0, f_view_extent = 0, f_view_size = 0,
          f_etype_size = 0, f_position_in_file_view = 0, f_index_in_file_view = 0, f_total_bytes = 0\<rparr>,
        f_atomicity = 0, f_sharedfp = False, f_split_coll_in_use = False, f_split_coll_req = 0\<rparr>,
      state = BBVIEW_STATE_DEFAULT, view_index = 0, data_disp = 0, data_dt_buf = None, saved_dt_len = 0,
      data_et_buf = None, saved_et_len = 0, saved_datarep = None, saved_etype = None, saved_filetype = None\<rparr>"

text \<open>The zero of the enumeration is the default state, so the assignment after \<open>calloc\<close> changes nothing.\<close>

lemma zeroed_state: "state zeroed_data \<le> st" "state_value (state zeroed_data) = 0"
    "zeroed_data\<lparr>state := BBVIEW_STATE_DEFAULT, view_index := 0\<rparr> = zeroed_data"
  by (simp_all add: zeroed_data_def less_eq_bbview_state_def)

text \<open>
  \<open>file_query\<close>: whether the module is offered, what \<open>*private_data\<close> becomes, and the
  priority. When \<open>calloc\<close> fails \<open>*private_data\<close> keeps its value.
\<close>

definition file_query :: "bool \<Rightarrow> bbview_params \<Rightarrow> data_ptr \<Rightarrow> bool \<times> data_ptr \<times> int" where
  "file_query calloc_ok p private_data =
     (if calloc_ok
      then (True, Live (zeroed_data\<lparr>state := BBVIEW_STATE_DEFAULT, view_index := 0\<rparr>), priority_param p)
      else (False, private_data, priority_param p))"

text \<open>\<open>free\<close> of a block that is already freed is undefined.\<close>

definition file_unquery :: "data_ptr \<Rightarrow> (rc \<times> data_ptr) option" where
  "file_unquery private_data =
     (case private_data of
        Null_ptr \<Rightarrow> Some (OMPI_SUCCESS, Null_ptr)
      | Live _ \<Rightarrow> Some (OMPI_SUCCESS, Dangling)
      | Dangling \<Rightarrow> None)"

section \<open>Operations without a file\<close>

record 'x comp_env =
  request_init :: "'x \<Rightarrow> 'x"
  set_callbacks :: "'x \<Rightarrow> rc \<times> 'x"
  request_fini :: "'x \<Rightarrow> 'x"
  buffer_alloc_fini :: "'x \<Rightarrow> 'x"
  common_file_delete :: "string \<Rightarrow> 'x \<Rightarrow> rc \<times> 'x"

definition open_component :: "'x comp_env \<Rightarrow> 'x \<Rightarrow> rc \<times> 'x" where
  "open_component env l = set_callbacks env (request_init env l)"

definition close_component :: "'x comp_env \<Rightarrow> 'x \<Rightarrow> rc \<times> 'x" where
  "close_component env l = (OMPI_SUCCESS, buffer_alloc_fini env (request_fini env l))"

definition init_query :: "bool \<Rightarrow> bool \<Rightarrow> rc" where
  "init_query enable_progress_threads enable_mpi_threads = OMPI_SUCCESS"

text \<open>\<open>*priority\<close>, \<open>*usable\<close> and \<open>*private_data\<close>, after the return code.\<close>

definition delete_query :: "bbview_params \<Rightarrow> rc \<times> int \<times> bool \<times> data_ptr" where
  "delete_query p = (OMPI_SUCCESS, delete_priority_param p, True, Null_ptr)"

text \<open>The mutex of the component is taken for the deletion; taking it twice is a self-deadlock.\<close>

definition delete_select :: "'x comp_env \<Rightarrow> string \<Rightarrow> bool \<times> 'x \<Rightarrow> (rc \<times> bool \<times> 'x) option" where
  "delete_select env filename = (\<lambda>(held, l).
     if held then None
     else (let (ret, l') = common_file_delete env filename l in Some (ret, False, l')))"

definition register_datarep :: "string \<Rightarrow> rc" where
  "register_datarep datarep = OMPI_ERROR"

section \<open>The parameter table\<close>

definition param_table :: "ompio_params \<Rightarrow> (string \<times> int) list" where
  "param_table p =
     [(''verbose_info_parsing'', mca_io_ompio_verbose_info_parsing p),
      (''num_aggregators'', mca_io_ompio_num_aggregators p),
      (''bytes_per_agg'', mca_io_ompio_bytes_per_agg p),
      (''overwrite_amode'', mca_io_ompio_overwrite_amode p),
      (''cycle_buffer_size'', mca_io_ompio_cycle_buffer_size p),
      (''pipeline_buffer_size'', mca_io_ompio_pipeline_buffer_size p),
      (''max_aggregators_ratio'', mca_io_ompio_max_aggregators_ratio p),
      (''aggregators_cutoff_threshold'', mca_io_ompio_aggregators_cutoff_threshold p),
      (''grouping_option'', mca_io_ompio_grouping_option p),
      (''coll_timing_info'', mca_io_ompio_coll_timing_info p),
      (''use_accelerator_buffers'', mca_io_ompio_use_accelerator_buffers p)]"

text \<open>The chain of comparisons is a search of the table.\<close>

lemma param_find:
  "mca_io_bbview_get_mca_parameter_value err p name len =
     (case find (\<lambda>(n, _). strncmp_eq name n (unat (of_int len :: 64 word))) (param_table p) of
        Some (_, v) \<Rightarrow> v | None \<Rightarrow> err)"
  unfolding mca_io_bbview_get_mca_parameter_value_def param_table_def Let_def by simp

lemma find_eq_map_of: "(\<And>n. n \<in> fst ` set xs \<Longrightarrow> P n \<longleftrightarrow> n = k) \<Longrightarrow>
    (case find (\<lambda>(n, _). P n) xs of Some (_, v) \<Rightarrow> v | None \<Rightarrow> d) = (case map_of xs k of Some v \<Rightarrow> v | None \<Rightarrow> d)"
  by (induction xs) auto

lemma param_names: "n \<in> fst ` set (param_table p) \<Longrightarrow> CHR 0x00 \<notin> set n \<and> length n < 2 ^ 31"
  by (auto simp: param_table_def)

lemma size_of_int: "0 \<le> len \<Longrightarrow> len < 2 ^ 31 \<Longrightarrow> unat (of_int len :: 64 word) = nat len"
proof -
  assume "0 \<le> len" "len < 2 ^ 31"
  then have "(of_int len :: 64 word) = of_nat (nat len)" "nat len < 2 ^ 31" by simp_all
  then show ?thesis by (simp add: unat_of_nat)
qed

lemma strncmp_eq_name:
  assumes "CHR 0x00 \<notin> set a" "CHR 0x00 \<notin> set b" "length a < n"
  shows "strncmp_eq a b n \<longleftrightarrow> b = a"
  using strncmp_eq_full [OF assms(2,1,3)] by (auto simp: strncmp_eq_def)

text \<open>With its own length every listed name finds itself: none is a prefix of a later one.\<close>

definition param_list :: "string list" where
  "param_list =
     [''verbose_info_parsing'', ''num_aggregators'', ''bytes_per_agg'', ''overwrite_amode'', ''cycle_buffer_size'',
      ''pipeline_buffer_size'', ''max_aggregators_ratio'', ''aggregators_cutoff_threshold'', ''grouping_option'',
      ''coll_timing_info'', ''use_accelerator_buffers'']"

lemma param_list_own:
  "list_all (\<lambda>n. find (\<lambda>m. strncmp_eq n m (length n)) param_list = Some n) param_list \<and> distinct param_list"
  unfolding strncmp_eq_def by code_simp

lemma param_list_fst: "map fst (param_table p) = param_list"
  by (simp add: param_table_def param_list_def)

lemma find_pair:
  "distinct (map fst xs) \<Longrightarrow> find P (map fst xs) = Some n \<Longrightarrow> (n, v) \<in> set xs \<Longrightarrow> find (\<lambda>(m, _). P m) xs = Some (n, v)"
proof (induction xs)
  case (Cons x xs)
  obtain m w where x: "x = (m, w)" by (rule prod.exhaust)
  show ?case
  proof (cases "P m")
    case True
    then have "n = m" using Cons.prems(2) x by simp
    then have "w = v" using Cons.prems(1,3) x by force
    then show ?thesis using True \<open>n = m\<close> x by simp
  next
    case False
    then have "find P (map fst xs) = Some n" using Cons.prems(2) x by simp
    moreover from this have "P n" by (auto simp: find_Some_iff)
    ultimately show ?thesis using Cons False x by auto
  qed
qed simp

lemma param_own:
  assumes "(n, v) \<in> set (param_table p)"
  shows "mca_io_bbview_get_mca_parameter_value err p n (int (length n)) = v"
proof -
  have n: "n \<in> fst ` set (param_table p)" using assms by force
  have "unat (of_int (int (length n)) :: 64 word) = length n"
    using param_names [OF n] by (subst size_of_int) simp_all
  moreover have "n \<in> set param_list" using n by (metis param_list_fst list.set_map)
  then have "find (\<lambda>m. strncmp_eq n m (length n)) (map fst (param_table p)) = Some n"
    using param_list_own by (simp add: param_list_fst list_all_iff)
  then have "find (\<lambda>(m, _). strncmp_eq n m (length n)) (param_table p) = Some (n, v)"
    by (rule find_pair [rotated]) (use assms param_list_own in \<open>simp_all add: param_list_fst\<close>)
  ultimately show ?thesis by (simp add: param_find)
qed

section \<open>Properties\<close>

text \<open>C31: The look-up of a parameter with a length that covers the name and its end is the look-up in
  the table of the eleven parameters, and an unknown name yields the error value; with the bare
  length of a listed name, as the ompio library passes it, the value is that parameter's: no
  name of the table is hidden by an earlier one of which it is a prefix.\<close>

theorem mca_parameter_lookup:
  assumes "CHR 0x00 \<notin> set name" "int (length name) < len" "len < 2 ^ 31"
  shows "mca_io_bbview_get_mca_parameter_value err p name len =
      (case map_of (param_table p) name of Some v \<Rightarrow> v | None \<Rightarrow> err) \<and>
    list_all (\<lambda>(n, v). mca_io_bbview_get_mca_parameter_value err p n (int (length n)) = v) (param_table p)"
proof
  have "length name < unat (of_int len :: 64 word)" using assms(2,3) by (subst size_of_int) simp_all
  then have key: "strncmp_eq name n (unat (of_int len :: 64 word)) \<longleftrightarrow> n = name" if "n \<in> fst ` set (param_table p)" for n
    using strncmp_eq_name [OF assms(1)] param_names [OF that] by blast
  show "mca_io_bbview_get_mca_parameter_value err p name len =
      (case map_of (param_table p) name of Some v \<Rightarrow> v | None \<Rightarrow> err)"
    unfolding param_find by (rule find_eq_map_of [where P = "\<lambda>n. strncmp_eq name n (unat (of_int len :: 64 word))", OF key])
next
  show "list_all (\<lambda>(n, v). mca_io_bbview_get_mca_parameter_value err p n (int (length n)) = v) (param_table p)"
    unfolding list_all_iff by (rule ballI) (auto intro: param_own)
qed

definition demo_params :: ompio_params where
  "demo_params = \<lparr>mca_io_ompio_verbose_info_parsing = 0, mca_io_ompio_num_aggregators = -1,
     mca_io_ompio_bytes_per_agg = 33554432, mca_io_ompio_overwrite_amode = 1,
     mca_io_ompio_cycle_buffer_size = 536870912, mca_io_ompio_pipeline_buffer_size = 1048576,
     mca_io_ompio_max_aggregators_ratio = 8, mca_io_ompio_aggregators_cutoff_threshold = 3,
     mca_io_ompio_grouping_option = 5, mca_io_ompio_coll_timing_info = 0, mca_io_ompio_use_accelerator_buffers = 0\<rparr>"

theorem mca_parameter_lookup_witness:
  "mca_io_bbview_get_mca_parameter_value 99 demo_params ''grouping_option'' 16 = 5 \<and>
   mca_io_bbview_get_mca_parameter_value 99 demo_params ''grouping'' 9 = 99"
  using mca_parameter_lookup [of "''grouping_option''" 16 99 demo_params] mca_parameter_lookup [of "''grouping''" 9 99 demo_params]
  by (simp add: param_table_def demo_params_def)

end
