(* ===== verification/BBV_Module.thy ===== *)
theory BBV_Module
  imports BBV_ReadWrite BBV_FileOps BBV_Position BBV_Prealloc BBV_Params
begin

text \<open>
  The module table (\<open>io_bbview_module.c\<close>): one dispatcher over all operations of a file, what
  sequences of calls do to the view state, and which calls always return. The contract of a
  dispatcher is a locale: every call that returns is a step of the abstract machine of \<open>BBV_SetView\<close>
  and leaves the lock free.
\<close>

section \<open>The table\<close>

datatype module_op =
    File_open string "32 word"
  | File_close
  | File_set_size "64 word"
  | File_preallocate int
  | File_get_size
  | File_get_amode
  | File_set_view "64 word" mpi_type mpi_type "string option" "(string \<Rightarrow> string option) option"
  | File_get_view
  | File_io io_op bool io_args
  | File_seek "64 word" whence
  | File_get_position
  | File_get_byte_offset "64 word"
  | File_seek_shared "64 word" whence
  | File_get_position_shared
  | File_get_type_extent mpi_type
  | File_set_atomicity int
  | File_get_atomicity
  | File_sync

text \<open>What a call hands back: its code, and the values stored through its pointer arguments.\<close>

datatype reply =
    Reply rc
  | Reply_word "rc \<times> 64 word"
  | Reply_status io_reply
  | Reply_word_opt "rc \<times> 64 word option"
  | Reply_amode "rc \<times> 32 word"
  | Reply_int "rc \<times> int"
  | Reply_view "rc \<times> 64 word \<times> mpi_type option \<times> mpi_type option \<times> string"

record 'x module_env =
  m_view :: "'x env"
  m_io :: "'x io_env"
  m_ops :: "'x ops_env"
  m_pos :: "'x pos_env"
  m_pre :: "'x pre_env"

definition replying :: "('r \<Rightarrow> reply) \<Rightarrow> ('r \<times> 'x sys) option \<Rightarrow> (reply \<times> 'x sys) option" where
  "replying f = map_option (\<lambda>(r, t). (f r, t))"

fun mca_io_bbview_module :: "'x module_env \<Rightarrow> module_op \<Rightarrow> 'x sys \<Rightarrow> (reply \<times> 'x sys) option" where
  "mca_io_bbview_module env (File_open filename amode) s =
     replying Reply (mca_io_bbview_file_open (m_view env) filename amode s)"
| "mca_io_bbview_module env File_close s = replying Reply (mca_io_bbview_file_close (m_view env) s)"
| "mca_io_bbview_module env (File_set_size n) s = replying Reply (mca_io_bbview_file_set_size (m_ops env) n s)"
| "mca_io_bbview_module env (File_preallocate n) s = replying Reply (mca_io_bbview_file_preallocate (m_pre env) n s)"
| "mca_io_bbview_module env File_get_size s = replying Reply_word (mca_io_bbview_file_get_size (m_ops env) s)"
| "mca_io_bbview_module env File_get_amode s = replying Reply_amode (mca_io_bbview_file_get_amode s)"
| "mca_io_bbview_module env (File_set_view disp etype filetype datarep info) s =
     replying Reply (mca_io_bbview_file_set_view (m_view env) disp etype filetype datarep info s)"
| "mca_io_bbview_module env File_get_view s = replying Reply_view (mca_io_bbview_file_get_view (m_view env) s)"
| "mca_io_bbview_module env (File_io req st a) s = replying Reply_status (io_dispatch req st (m_io env) a s)"
| "mca_io_bbview_module env (File_seek off whence) s = replying Reply (mca_io_bbview_file_seek (m_pos env) off whence s)"
| "mca_io_bbview_module env File_get_position s = replying Reply_word (mca_io_bbview_file_get_position (m_pos env) s)"
| "mca_io_bbview_module env (File_get_byte_offset offset) s =
     replying Reply_word_opt (mca_io_bbview_file_get_byte_offset offset s)"
| "mca_io_bbview_module env (File_seek_shared off whence) s =
     replying Reply (mca_io_bbview_file_seek_shared (m_pos env) off whence s)"
| "mca_io_bbview_module env File_get_position_shared s =
     replying Reply_word_opt (mca_io_bbview_file_get_position_shared (m_pos env) s)"
| "mca_io_bbview_module env (File_get_type_extent ty) s =
     replying Reply_int (mca_io_bbview_file_get_type_extent (m_ops env) ty s)"
| "mca_io_bbview_module env (File_set_atomicity flag) s =
     replying Reply (mca_io_bbview_file_set_atomicity (m_ops env) flag s)"
| "mca_io_bbview_module env File_get_atomicity s = replying Reply_int (mca_io_bbview_file_get_atomicity s)"
| "mca_io_bbview_module env File_sync s = replying Reply (mca_io_bbview_file_sync (m_ops env) s)"

lemma replying_Some [simp]: "replying f x = Some (r, t) \<longleftrightarrow> (\<exists>q. x = Some (q, t) \<and> r = f q)"
  by (auto simp: replying_def)

section \<open>The contract of a dispatcher\<close>

definition is_step :: "'x sys \<Rightarrow> 'x sys \<Rightarrow> bool" where
  "is_step s t \<longleftrightarrow> unlocked t \<and>
     (\<exists>a b. view_abs_of s = Some a \<and> view_abs_of t = Some b \<and> view_step a b)"

lemma is_step_stay: "live s \<Longrightarrow> view_abs_of t = view_abs_of s \<Longrightarrow> unlocked t \<Longrightarrow> is_step s t"
  by (auto simp: is_step_def live_def intro: view_step.stay)

lemma is_step_live: "is_step s t \<Longrightarrow> live t"
  by (auto simp: is_step_def live_def)

text \<open>Abstract machine: how far a path of \<open>n\<close> steps gets.\<close>

lemma view_step_absorbs: "view_step\<^sup>*\<^sup>* (BBVIEW_STATE_FALLBACK, n) b \<Longrightarrow> b = (BBVIEW_STATE_FALLBACK, n)"
  by (induction rule: rtranclp_induct) (auto simp: view_step_fallback)

text \<open>The view number counts the buffered views as long as it does not wrap around.\<close>

lemma view_step_count:
  assumes "view_step a b" "unat (snd a) + 1 < 2 ^ 64" "fst a = BBVIEW_STATE_ACTIVE \<longrightarrow> snd a \<noteq> 0"
  shows "unat (snd a) \<le> unat (snd b) \<and> unat (snd b) \<le> unat (snd a) + 1 \<and> (fst b = BBVIEW_STATE_ACTIVE \<longrightarrow> snd b \<noteq> 0)"
  using assms(1)
proof cases
  case (buffer st n)
  have "unat (n + 1) = unat n + 1" using assms(2) buffer by (simp add: unat_word_ariths)
  then show ?thesis using buffer by (auto simp: unat_eq_0 [symmetric] simp del: unat_eq_0)
qed (use assms(3) in auto)

lemma view_path_count:
  assumes "(view_step ^^ n) a b" "unat (snd a) + n < 2 ^ 64" "fst a = BBVIEW_STATE_ACTIVE \<longrightarrow> snd a \<noteq> 0"
  shows "unat (snd a) \<le> unat (snd b) \<and> unat (snd b) \<le> unat (snd a) + n \<and> (fst b = BBVIEW_STATE_ACTIVE \<longrightarrow> snd b \<noteq> 0)"
  using assms
proof (induction n arbitrary: b)
  case (Suc n)
  obtain c where c: "(view_step ^^ n) a c" "view_step c b" using Suc.prems(1) by auto
  have ih: "unat (snd a) \<le> unat (snd c) \<and> unat (snd c) \<le> unat (snd a) + n \<and>
      (fst c = BBVIEW_STATE_ACTIVE \<longrightarrow> snd c \<noteq> 0)"
    using Suc.IH [OF c(1)] Suc.prems(2,3) by simp
  have "unat (snd c) + 1 < 2 ^ 64" using ih Suc.prems(2) by linarith
  then show ?case using view_step_count [OF c(2)] ih by linarith
qed simp

locale view_machine =
  fixes exec :: "'c \<Rightarrow> 'x sys \<Rightarrow> ('r \<times> 'x sys) option" and covers :: "'c \<Rightarrow> bool"
  assumes exec_step: "covers c \<Longrightarrow> live s \<Longrightarrow> exec c s = Some (r, t) \<Longrightarrow> is_step s t"
begin

lemma run_path:
  "list_all covers cs \<Longrightarrow> live s \<Longrightarrow> run exec cs s = Some (rs, t) \<Longrightarrow>
   live t \<and> length rs = length cs \<and>
   (\<exists>a b. view_abs_of s = Some a \<and> view_abs_of t = Some b \<and> (view_step ^^ length cs) a b)"
proof (induction cs arbitrary: s rs)
  case Nil
  then show ?case by (auto simp: live_def)
next
  case (Cons c cs)
  obtain r u where u: "exec c s = Some (r, u)"
    using Cons.prems(3) by (auto simp: bind_eq_Some_conv)
  obtain rs' where rs': "run exec cs u = Some (rs', t)" "rs = r # rs'"
    using Cons.prems(3) u by (auto simp: bind_eq_Some_conv)
  have st: "is_step s u" using exec_step [OF _ Cons.prems(2) u] Cons.prems(1) by simp
  have ih: "live t \<and> length rs' = length cs \<and>
      (\<exists>a b. view_abs_of u = Some a \<and> view_abs_of t = Some b \<and> (view_step ^^ length cs) a b)"
    using Cons.IH [OF _ is_step_live [OF st] rs'(1)] Cons.prems(1) by simp
  obtain a b where "view_abs_of s = Some a" "view_abs_of u = Some b" "view_step a b"
    using st by (auto simp: is_step_def)
  moreover obtain b' where "view_abs_of t = Some b'" "(view_step ^^ length cs) b b'"
    using ih calculation(2) by auto
  ultimately have "view_abs_of s = Some a \<and> view_abs_of t = Some b' \<and> (view_step ^^ length (c # cs)) a b'"
    using relpowp_Suc_I2 [of view_step a b "length cs" b'] by simp
  then show ?case using ih rs'(2) by auto
qed

end

text \<open>Operations that only pass a call on are machines that never leave their state.\<close>

sublocale handle_client \<subseteq> view_machine exec "\<lambda>_. True"
proof
  fix c s r t
  assume "live s" "exec c s = Some (r, t)"
  then show "is_step s t"
    using passesD [OF exec_passes, of s c] by (auto simp: keeps_view_def intro: is_step_stay)
qed

section \<open>Every operation but close is a step\<close>

lemma keeping:
  assumes "live s" "unlock_return r u = Some (ret, t)" "view_abs_of u = view_abs_of s"
  shows "is_step s t"
  using unlock_return_abs [OF assms(2)] assms(3) by (intro is_step_stay [OF assms(1)]) simp_all

lemma positions_step:
  assumes "live s"
  shows "mca_io_bbview_file_get_size env s = Some (r1, t) \<Longrightarrow> is_step s t"
    and "mca_io_bbview_file_get_atomicity s = Some (r2, t) \<Longrightarrow> is_step s t"
    and "mca_io_bbview_file_get_position penv s = Some (r3, t) \<Longrightarrow> is_step s t"
    and "mca_io_bbview_file_get_view venv s = Some (r4, t) \<Longrightarrow> is_step s t"
    and "mca_io_bbview_file_get_byte_offset offset s = Some (r5, t) \<Longrightarrow> is_step s t"
  using assms
  by (auto simp: mca_io_bbview_file_get_size_def mca_io_bbview_file_get_atomicity_def mca_io_bbview_file_get_position_def
      mca_io_bbview_file_get_view_def mca_io_bbview_file_get_byte_offset_def bind_eq_Some_conv
      dest!: lock_abs intro!: keeping)

lemma position_shared_step:
  assumes "live s" "mca_io_bbview_file_get_position_shared env s = Some (ret, t)"
  shows "is_step s t"
proof -
  obtain d where d: "data_of s = Some d" using live_data [OF assms(1)] by blast
  show ?thesis
  proof (cases "f_sharedfp (ompio_fh d)")
    case True
    obtain s1 where l: "lock s = Some s1"
      using assms(2) d True by (auto simp: mca_io_bbview_file_get_position_shared_def bind_eq_Some_conv)
    obtain r off where "sharedfp_position env (ompio_fh d) (lib s1) = (r, off)" by (rule prod.exhaust)
    then have "\<exists>q. unlock_return q s1 = Some (ret, t)"
      using assms(2) d True l by (auto simp: mca_io_bbview_file_get_position_shared_def split: if_splits)
    then show ?thesis using keeping [OF assms(1)] lock_abs [OF l] by metis
  next
    case False
    then have "t = s" using assms(2) d by (simp add: mca_io_bbview_file_get_position_shared_def)
    then show ?thesis using assms(1) by (intro is_step_stay) (simp_all add: live_def)
  qed
qed

lemma seek_step:
  assumes "live s" "mca_io_bbview_file_seek env off whence s = Some (ret, t)"
  shows "is_step s t"
proof -
  obtain s1 where l: "lock s = Some s1"
    using assms(2) by (auto simp: mca_io_bbview_file_seek_def bind_eq_Some_conv)
  have "\<exists>r u. unlock_return r u = Some (ret, t) \<and> view_abs_of u = view_abs_of s1"
    using assms(2) l call_lib_abs [of _ s1]
    by (fastforce simp: mca_io_bbview_file_seek_def bind_eq_Some_conv Let_def split: option.splits if_splits)
  then show ?thesis using keeping [OF assms(1)] lock_abs [OF l] by metis
qed

lemma preallocate_step:
  assumes "live s" "mca_io_bbview_file_preallocate env n s = Some (ret, t)"
  shows "is_step s t"
  using assms
  by (auto simp: mca_io_bbview_file_preallocate_def bind_eq_Some_conv view_abs_of_def dest!: lock_abs intro!: keeping)

lemma open_step:
  assumes "live s" "mca_io_bbview_file_open env filename amode s = Some (ret, t)"
  shows "is_step s t"
proof -
  have f: "f_io_selected_data (hd_file s) \<noteq> Null_ptr"
    using live_data [OF assms(1)] by (auto simp: data_of_def)
  obtain r u where u: "call_lib (common_file_open env filename amode) s = Some (r, u)"
      "t = (if r = OMPI_SUCCESS then u\<lparr>hd_file := (hd_file u)\<lparr>f_is_open := True\<rparr>\<rparr> else u)"
    using assms(2) f by (auto simp: mca_io_bbview_file_open_def bind_eq_Some_conv)
  have "view_abs_of t = view_abs_of u" "f_lock (hd_file t) = f_lock (hd_file u)"
    using u(2) by (auto simp: view_abs_of_def data_of_def)
  then show ?thesis
    using call_lib_abs [OF u(1)] assms(1) by (intro is_step_stay) (auto simp: live_def unlocked_def)
qed

lemma passes_step: "passes call \<Longrightarrow> live s \<Longrightarrow> call s = Some (r, t) \<Longrightarrow> is_step s t"
  using passesD [of call s] by (auto simp: keeps_view_def intro: is_step_stay)

lemma seek_shared_passes: "passes (mca_io_bbview_file_seek_shared env off whence)"
  unfolding mca_io_bbview_file_seek_shared_def by (intro passes_rules)

lemma set_view_is_step:
  assumes "live s" "mca_io_bbview_file_set_view env disp etype filetype datarep info s = Some (ret, t)"
  shows "is_step s t"
  using set_view_abs [OF assms(2)]
proof
  assume "t = s"
  then show ?thesis using assms(1) by (intro is_step_stay) (simp_all add: live_def)
qed (auto simp: is_step_def)

lemmas op_steps = positions_step position_shared_step seek_step preallocate_step open_step set_view_is_step
  passes_step [OF seek_shared_passes] passes_step [OF passes_dispatch]

lemma ops_step:
  "live s \<Longrightarrow> mca_io_bbview_file_set_size env n s = Some (ret, t) \<Longrightarrow> is_step s t"
  "live s \<Longrightarrow> mca_io_bbview_file_sync env s = Some (ret, t) \<Longrightarrow> is_step s t"
  "live s \<Longrightarrow> mca_io_bbview_file_set_atomicity env flag s = Some (ret, t) \<Longrightarrow> is_step s t"
  using set_size_abs sync_abs set_atomicity_abs by (fastforce simp: is_step_def live_def intro: view_step.stay)+

lemma module_step:
  assumes "live s" "c \<noteq> File_close" "mca_io_bbview_module env c s = Some (r, t)"
  shows "is_step s t"
proof -
  have stay: "is_step s s" using assms(1) by (intro is_step_stay) (simp_all add: live_def)
  show ?thesis
  proof (cases c)
    case File_get_amode
    then have "t = s" using assms(3) by (auto simp: mca_io_bbview_file_get_amode_def bind_eq_Some_conv)
    then show ?thesis using stay by simp
  next
    case File_get_type_extent
    then have "t = s" using assms(3) by (auto simp: mca_io_bbview_file_get_type_extent_def)
    then show ?thesis using stay by simp
  qed (use assms in \<open>auto dest: op_steps ops_step\<close>)
qed

interpretation module: view_machine "mca_io_bbview_module env" "\<lambda>c. c \<noteq> File_close" for env
  by unfold_locales (rule module_step)

section \<open>Which calls always return\<close>

text \<open>
  A view description that flush can read, and in the ACTIVE state one that \<open>get_view\<close> can
  return.
\<close>

definition view_wf :: "bbview_data \<Rightarrow> bool" where
  "view_wf d \<longleftrightarrow> desc_of d \<noteq> None \<and>
     (state d = BBVIEW_STATE_ACTIVE \<longrightarrow> saved_etype d \<noteq> None \<and> saved_filetype d \<noteq> None \<and> saved_datarep d \<noteq> None)"

definition ready :: "'x sys \<Rightarrow> bool" where
  "ready s \<longleftrightarrow> unlocked s \<and> (\<exists>d. data_of s = Some d \<and> view_wf d)"

definition held :: "'x sys \<Rightarrow> bool" where
  "held s \<longleftrightarrow> f_lock (hd_file s) \<and> (\<exists>d. data_of s = Some d \<and> view_wf d)"

definition returns :: "('x sys \<Rightarrow> ('r \<times> 'x sys) option) \<Rightarrow> bool" where
  "returns call \<longleftrightarrow> (\<forall>s. ready s \<longrightarrow> (\<exists>r t. call s = Some (r, t) \<and> ready t))"

lemma view_wf_part: "view_part d = view_part d' \<Longrightarrow> view_wf d = view_wf d'"
  by (simp add: view_part_def view_wf_def desc_of_eq)

lemma view_wf_fh [simp]: "view_wf (d\<lparr>ompio_fh := x\<rparr>) = view_wf d"
  by (rule view_wf_part) simp

lemma ready_live: "ready s \<Longrightarrow> live s"
  by (auto simp: ready_def live_def view_abs_of_def)

lemma ready_same: "ready s \<Longrightarrow> unlocked t \<Longrightarrow> map_option view_part (data_of t) = map_option view_part (data_of s) \<Longrightarrow> ready t"
  unfolding ready_def using view_wf_part by (metis (no_types, lifting) map_option_eq_Some option.map(2))

lemma passes_returns:
  assumes "passes call"
  shows "returns call"
  unfolding returns_def
proof (intro allI impI)
  fix s :: "'a sys" assume r: "ready s"
  obtain q t where c: "call s = Some (q, t)" "keeps_view s t" using passesD [OF assms ready_live [OF r]] by blast
  have "ready t" by (rule ready_same [OF r]) (use c(2) in \<open>simp_all only: keeps_view_def\<close>)
  then show "\<exists>q t. call s = Some (q, t) \<and> ready t" using c(1) by blast
qed

lemma lock_ready: "ready s \<Longrightarrow> \<exists>t. lock s = Some t \<and> held t \<and> data_of t = data_of s \<and> lib t = lib s"
  by (auto simp: ready_def held_def lock_def unlocked_def data_of_def)

lemma unlock_held: "held s \<Longrightarrow> \<exists>q t. unlock_return r s = Some (q, t) \<and> ready t"
  by (auto simp: held_def ready_def unlock_return_def unlock_def unlocked_def data_of_def)

lemma put_held: "held s \<Longrightarrow> view_wf d \<Longrightarrow> held (put_data d s)"
  by (simp add: held_def) (simp add: put_data_def)

lemma call_held: "held s \<Longrightarrow> \<exists>r t. call_lib f s = Some (r, t) \<and> held t"
proof -
  assume h: "held s"
  then obtain d where d: "data_of s = Some d" "view_wf d" "f_lock (hd_file s)" by (auto simp: held_def)
  obtain r fh l where "f (ompio_fh d) (lib s) = (r, fh, l)" using prod_cases3 by blast
  then show ?thesis using d by (simp add: call_lib_def held_def) (simp add: put_data_def)
qed

lemma call_unlock_held: "held s \<Longrightarrow> \<exists>r t. do { (ret, u) \<leftarrow> call_lib f s; unlock_return ret u } = Some (r, t) \<and> ready t"
  using call_held [of s f] unlock_held by fastforce

lemma flush_held:
  assumes "data_of s = Some d" "view_wf d"
  shows "\<exists>r t. mca_io_bbview_file_flush env s = Some (r, t) \<and> hd_file t = hd_file s \<and> data_of t = data_of s"
proof -
  obtain desc where "saved_desc (saved_view_of d) = Some desc" using assms(2) by (auto simp: view_wf_def desc_of_def)
  then obtain ok m where "set_xattrs_for_bbview (setxattr (xattr_accepts env) (buffer_name env s (view_index d)))
      (realpath env s (ompio_filename (ompio_fh d))) (saved_view_of d) (files s) = Some (ok, m)"
    using set_xattrs_total [of _ desc "setxattr (xattr_accepts env) (buffer_name env s (view_index d))"
        "realpath env s (ompio_filename (ompio_fh d))" "files s"] by blast
  then have "\<exists>r t. mca_io_bbview_file_flush env s = Some (r, t)"
    using assms(1) surj_pair [of "send_path env (buffer_name env s (view_index d)) (s\<lparr>files := m\<rparr>)"]
    by (auto simp: mca_io_bbview_file_flush_def Let_def)
  then show ?thesis using flush_handle flush_data by metis
qed

text \<open>What the MPI library promises about packed descriptions.\<close>

definition pack_ok :: "'x env \<Rightarrow> mpi_type \<Rightarrow> bool" where
  "pack_ok env ty \<longleftrightarrow> fst (get_pack_description env ty) = OMPI_SUCCESS \<and>
     length (snd (get_pack_description env ty)) = pack_description_length env ty"

lemma pack_ok_saves:
  assumes "pack_ok env filetype" "pack_ok env etype"
  shows "save_filetype env filetype d = Some (OMPI_SUCCESS, d\<lparr>saved_dt_len := pack_description_length env filetype,
      data_dt_buf := Some (snd (get_pack_description env filetype))\<rparr>)"
    and "save_etype env etype d = Some (OMPI_SUCCESS, d\<lparr>saved_et_len := pack_description_length env etype,
      data_et_buf := Some (snd (get_pack_description env etype))\<rparr>)"
  using assms by (auto simp: pack_ok_def save_filetype_def save_etype_def Let_def split: prod.splits)

lemma open_buffer_held:
  assumes "held s" "use_o_direct env filetype info = Some direct"
  shows "\<exists>r t. open_buffer_file env etype filetype datarep info s = Some (r, t) \<and> ready t"
proof -
  obtain d where d: "data_of s = Some d" "view_wf d" "f_lock (hd_file s)" using assms(1) by (auto simp: held_def)
  let ?s1 = "sys_close (fd (ompio_fh d)) s"
  obtain n u where o: "sys_open env (buffer_name env ?s1 (view_index d)) True direct ?s1 = (n, u)" by (rule prod.exhaust)
  have "hd_file u = hd_file s" using o sys_open_handle [of env _ True direct ?s1] by (metis snd_conv sys_close_handle)
  then have h: "held u" using d by (simp add: held_def data_of_def)
  let ?s3 = "put_data (d\<lparr>ompio_fh := (ompio_fh d)\<lparr>fd := n\<rparr>\<rparr>) u"
  have h3: "held ?s3" using put_held [OF h] d(2) by simp
  show ?thesis
    using d(1) o assms(2) unlock_held [OF h3] call_unlock_held [OF h3]
    by (cases "n < 0") (simp_all add: open_buffer_file_def Let_def)
qed

lemma activate_held:
  assumes "f_lock (hd_file s)" "data_of s = Some d"
    and "pack_ok env filetype" "pack_ok env etype" "use_o_direct env filetype info = Some direct"
  shows "\<exists>r t. activate_view env disp etype filetype datarep info s = Some (r, t) \<and> ready t"
proof -
  define d3 where "d3 = d\<lparr>state := BBVIEW_STATE_ACTIVE, view_index := view_index d + 1,
      saved_datarep := Some datarep, saved_etype := Some etype, saved_filetype := Some filetype, data_disp := disp,
      saved_dt_len := pack_description_length env filetype, data_dt_buf := Some (snd (get_pack_description env filetype)),
      saved_et_len := pack_description_length env etype, data_et_buf := Some (snd (get_pack_description env etype))\<rparr>"
  have "view_wf d3" using assms(3,4) by (simp add: d3_def view_wf_def desc_of_eq user_bytes_def pack_ok_def)
  then have h: "held (put_data d3 s)" using assms(1) by (simp add: held_def) (simp add: put_data_def)
  have "activate_view env disp etype filetype datarep info s =
      (if type_extent env filetype \<noteq> OMPI_SUCCESS then unlock_return (type_extent env filetype) (put_data d3 s)
       else open_buffer_file env etype filetype datarep info (put_data d3 s))"
    using assms(2) pack_ok_saves [OF assms(3,4)] by (simp add: activate_view_def Let_def d3_def)
  then show ?thesis using unlock_held [OF h, of "type_extent env filetype"] open_buffer_held [OF h assms(5)] by simp
qed

lemma byte_view_held:
  assumes "held s"
  shows "\<exists>r t. set_byte_view env disp etype filetype datarep s = Some (r, t) \<and> ready t"
proof -
  obtain d where d: "data_of s = Some d" "view_wf d" "f_lock (hd_file s)" using assms by (auto simp: held_def)
  let ?rest = "\<lambda>u. do { (ret, u4) \<leftarrow> call_lib (common_set_view env disp etype filetype datarep) u; unlock_return ret u4 }"
  have wf: "view_wf (d\<lparr>state := BBVIEW_STATE_DEFAULT\<rparr>)"
    "view_wf (d\<lparr>saved_datarep := None, ompio_fh := x, state := BBVIEW_STATE_DEFAULT\<rparr>)" for x
    using d(2) by (simp_all add: view_wf_def desc_of_eq)
  show ?thesis
  proof (cases "state d = BBVIEW_STATE_ACTIVE")
    case False
    have "set_byte_view env disp etype filetype datarep s =
        ?rest (if state d \<noteq> BBVIEW_STATE_FALLBACK then put_data (d\<lparr>state := BBVIEW_STATE_DEFAULT\<rparr>) s else s)"
      using d(1) False by (simp add: set_byte_view_def)
    then show ?thesis
      using call_unlock_held [OF assms] call_unlock_held [OF put_held [OF assms wf(1)]] by simp
  next
    case True
    obtain r s1 where f: "mca_io_bbview_file_flush env s = Some (r, s1)" "hd_file s1 = hd_file s" "data_of s1 = Some d"
      using flush_held [OF d(1,2), of env] d(1) by auto
    have h1: "held s1" using f d by (simp add: held_def)
    show ?thesis
    proof (cases "r = OMPI_SUCCESS")
      case False
      then have "set_byte_view env disp etype filetype datarep s = unlock_return r s1"
        using d(1) True f by (simp add: set_byte_view_def)
      then show ?thesis using unlock_held [OF h1] by simp
    next
      case ok: True
      obtain n u where o: "sys_open env (f_filename (hd_file s1)) False False (sys_close (fd (ompio_fh d)) s1) = (n, u)"
        by (rule prod.exhaust)
      have "hd_file u = hd_file s"
        using o f(2) sys_open_handle [of env _ False False "sys_close (fd (ompio_fh d)) s1"]
        by (metis snd_conv sys_close_handle)
      then have h: "held u" using d by (simp add: held_def data_of_def)
      let ?d2 = "d\<lparr>saved_datarep := None, ompio_fh := (ompio_fh d)\<lparr>fd := n\<rparr>\<rparr>"
      have "put_data (?d2\<lparr>state := BBVIEW_STATE_DEFAULT\<rparr>) (put_data ?d2 u) = put_data (?d2\<lparr>state := BBVIEW_STATE_DEFAULT\<rparr>) u"
        by (simp add: put_data_def)
      then have "set_byte_view env disp etype filetype datarep s = ?rest (put_data (?d2\<lparr>state := BBVIEW_STATE_DEFAULT\<rparr>) u)"
        using d(1) True f ok o by (simp add: set_byte_view_def)
      then show ?thesis using call_unlock_held [OF put_held [OF h wf(2)]] by simp
    qed
  qed
qed

lemma set_view_locked_held:
  assumes h: "held s" and ok: "pack_ok env filetype" "pack_ok env etype" "use_o_direct env filetype info = Some direct"
  shows "\<exists>r t. set_view_locked env disp etype filetype datarep info s = Some (r, t) \<and> ready t"
proof (cases "disp = 0 \<and> handle etype = handle mpi_byte \<and> handle filetype = handle mpi_byte")
  case True
  then have "set_view_locked env disp etype filetype datarep info s = set_byte_view env disp etype filetype datarep s"
    by (auto simp: set_view_locked_def)
  then show ?thesis using byte_view_held [OF h] by metis
next
  case other: False
  obtain d where d: "data_of s = Some d" "view_wf d" "f_lock (hd_file s)" using h by (auto simp: held_def)
  show ?thesis
  proof (cases "state d")
    case BBVIEW_STATE_DEFAULT
    then have "set_view_locked env disp etype filetype datarep info s = activate_view env disp etype filetype datarep info s"
      using other d by (auto simp: set_view_locked_def)
    then show ?thesis using activate_held [OF d(3,1) ok] by metis
  next
    case BBVIEW_STATE_FALLBACK
    then have "set_view_locked env disp etype filetype datarep info s =
        do { (ret, s4) \<leftarrow> call_lib (common_set_view env disp etype filetype datarep) s; unlock_return ret s4 }"
      using other d by (auto simp: set_view_locked_def)
    then show ?thesis using call_unlock_held [OF h] by metis
  next
    case BBVIEW_STATE_ACTIVE
    obtain r s1 where f: "mca_io_bbview_file_flush env s = Some (r, s1)" "hd_file s1 = hd_file s" "data_of s1 = Some d"
      using flush_held [OF d(1,2), of env] d(1) by auto
    have h1: "held s1" using f d by (simp add: held_def)
    let ?s2 = "put_data (d\<lparr>saved_datarep := None\<rparr>) s1"
    have "set_view_locked env disp etype filetype datarep info s =
        (if r \<noteq> OMPI_SUCCESS then unlock_return r s1 else activate_view env disp etype filetype datarep info ?s2)"
      using other d BBVIEW_STATE_ACTIVE f by (auto simp: set_view_locked_def)
    moreover have "\<exists>q t. activate_view env disp etype filetype datarep info ?s2 = Some (q, t) \<and> ready t"
      using activate_held [OF _ data_of_put [of "d\<lparr>saved_datarep := None\<rparr>" s1] ok] f(2) d(3)
      by (simp add: put_data_def)
    ultimately show ?thesis using unlock_held [OF h1, of r] by simp
  qed
qed

lemma set_view_returns:
  assumes ok: "pack_ok env filetype" "pack_ok env etype" "use_o_direct env filetype info = Some direct"
  shows "returns (mca_io_bbview_file_set_view env disp etype filetype (Some datarep) info)"
  unfolding returns_def
proof (intro allI impI)
  fix s :: "'a sys" assume r: "ready s"
  obtain d where d: "data_of s = Some d" using r by (auto simp: ready_def)
  obtain s1 where l: "lock s = Some s1" "held s1" using lock_ready [OF r] by blast
  show "\<exists>q t. mca_io_bbview_file_set_view env disp etype filetype (Some datarep) info s = Some (q, t) \<and> ready t"
    using d r l(1) set_view_locked_held [OF l(2) ok]
    by (simp add: mca_io_bbview_file_set_view_def)
qed

lemma returns_query:
  assumes "\<And>s. call s = do { s1 \<leftarrow> lock s; data \<leftarrow> data_of s1; unlock_return (f data (lib s1)) s1 }"
  shows "returns call"
  unfolding returns_def
proof (intro allI impI)
  fix s :: "'a sys" assume r: "ready s"
  obtain s1 where s1: "lock s = Some s1" "held s1" using lock_ready [OF r] by blast
  obtain d where d: "data_of s1 = Some d" using s1(2) by (auto simp: held_def)
  then show "\<exists>q t. call s = Some (q, t) \<and> ready t"
    using s1(1) unlock_held [OF s1(2), of "f d (lib s1)"] by (simp add: assms)
qed

lemma ops_returns:
  "returns (mca_io_bbview_file_set_size oenv n)" (is ?size)
  "returns (mca_io_bbview_file_get_size oenv)" (is ?get)
  "returns (mca_io_bbview_file_sync oenv)" (is ?sync)
  "returns (mca_io_bbview_file_get_position penv)" (is ?pos)
  "returns mca_io_bbview_file_get_atomicity" (is ?atom)
proof -
  have at: "\<exists>s1 d. lock s = Some s1 \<and> held s1 \<and> data_of s = Some d \<and> data_of s1 = Some d" if "ready s" for s :: "'a sys"
    using lock_ready [OF that] that by (auto simp: ready_def)
  show ?get ?pos ?atom
    by (rule returns_query, simp add: mca_io_bbview_file_get_size_def mca_io_bbview_file_get_position_def
        mca_io_bbview_file_get_atomicity_def)+
  show ?size
    unfolding returns_def
  proof (intro allI impI)
    fix s :: "'a sys" assume "ready s"
    then obtain s1 d where s1: "lock s = Some s1" "held s1" "data_of s1 = Some d" using at by blast
    obtain r tmp where b: "bcast_offset oenv n (lib s1) = (r, tmp)" by (rule prod.exhaust)
    obtain q s2 where c: "call_lib (fs_set_size oenv n) s1 = Some (q, s2)" "held s2" using call_held [OF s1(2)] by blast
    show "\<exists>r t. mca_io_bbview_file_set_size oenv n s = Some (r, t) \<and> ready t"
      using s1 b c(1) unlock_held [OF s1(2), of r] unlock_held [OF s1(2), of OMPI_ERROR] unlock_held [OF c(2), of q]
        unlock_held [OF c(2), of "barrier oenv (lib s2)"]
      by (simp add: mca_io_bbview_file_set_size_def)
  qed
  show ?sync
    unfolding returns_def
  proof (intro allI impI)
    fix s :: "'a sys" assume "ready s"
    then obtain s1 d where s1: "lock s = Some s1" "held s1" "data_of s1 = Some d" using at by blast
    obtain q s2 where c: "call_lib (fs_file_sync oenv) s1 = Some (q, s2)" "held s2" using call_held [OF s1(2)] by blast
    show "\<exists>r t. mca_io_bbview_file_sync oenv s = Some (r, t) \<and> ready t"
      using s1 c(1) unlock_held [OF s1(2), of MPI_ERR_OTHER] unlock_held [OF s1(2), of MPI_ERR_ACCESS]
        unlock_held [OF s1(2), of "barrier oenv (lib s1)"] unlock_held [OF c(2), of q]
      by (simp add: mca_io_bbview_file_sync_def)
  qed
qed

lemma set_atomicity_returns: "returns (mca_io_bbview_file_set_atomicity env flag)"
  unfolding returns_def
proof (intro allI impI)
  fix s :: "'a sys" assume r: "ready s"
  obtain s1 where s1: "lock s = Some s1" "held s1" "data_of s1 = data_of s" using lock_ready [OF r] by blast
  obtain d where d: "data_of s = Some d" "view_wf d" using r by (auto simp: ready_def)
  have wf: "view_wf (d\<lparr>state := BBVIEW_STATE_FALLBACK\<rparr>)" "view_wf (d\<lparr>ompio_fh := x, state := BBVIEW_STATE_FALLBACK\<rparr>)" for x
    using d(2) by (simp_all add: view_wf_def desc_of_eq)
  have put: "\<exists>q t. unlock_return c (put_data d' s1) = Some (q, t) \<and> ready t" if "view_wf d'" for c :: rc and d'
    by (rule unlock_held [OF put_held [OF s1(2) that]])
  show "\<exists>q t. mca_io_bbview_file_set_atomicity env flag s = Some (q, t) \<and> ready t"
    using d s1(1) unlock_held [OF s1(2), of OMPI_ERROR] put [OF wf(1), of MPI_ERR_IO] put [OF wf(2), of OMPI_SUCCESS]
      put [of "d\<lparr>ompio_fh := (ompio_fh d)\<lparr>f_atomicity := 0\<rparr>\<rparr>" OMPI_SUCCESS]
    by (simp add: mca_io_bbview_file_set_atomicity_def Let_def)
qed

lemma cycles_of_total: "- (2 ^ 62) \<le> sz \<Longrightarrow> sz \<le> 2 ^ 62 \<Longrightarrow> \<exists>n. cycles_of sz = Some n"
  by (simp add: cycles_of_def i64_def c_div_def OMPIO_PREALLOC_MAX_BUF_SIZE_def)

definition sizes_ok :: "'x pre_env \<Rightarrow> bool" where
  "sizes_ok env \<longleftrightarrow> (\<forall>fh l. 0 \<le> snd (pre_get_size env fh l))"

lemma preallocate_body_returns:
  assumes "0 \<le> n" "n \<le> 2 ^ 62" "sizes_ok env"
  shows "\<exists>r fh' l'. preallocate_body env n fh l = Some (r, fh', l')"
proof -
  obtain r1 tmp where b: "pre_bcast env n l = (r1, tmp)" by (rule prod.exhaust)
  obtain r2 cur where g: "pre_get_size env fh l = (r2, cur)" by (rule prod.exhaust)
  have cur: "0 \<le> cur" using assms(3) g by (metis sizes_ok_def snd_conv)
  have "\<exists>r fh' l'. root_fill env n cur fh l = Some (r, fh', l')" if le: "cur \<le> n"
  proof -
    let ?sz = "if n > cur then cur else n"
    have "?sz = cur" using that by simp
    moreover have "- (2 ^ 62) \<le> cur" "cur \<le> 2 ^ 62" using assms(2) cur that by linarith+
    ultimately obtain c1 where c1: "cycles_of ?sz = Some c1" using cycles_of_total [of cur] by metis
    obtain c2 where c2: "cycles_of (n - cur) = Some c2" using cycles_of_total [of "n - cur"] assms(1,2) cur le by auto
    show ?thesis
      using c1 c2 by (auto simp: root_fill_def Let_def split: option.split prod.split)
  qed
  then show ?thesis using b g by (fastforce simp: preallocate_body_def Let_def split: prod.split)
qed

lemma preallocate_returns:
  assumes "0 \<le> n" "n \<le> 2 ^ 62" "sizes_ok env"
  shows "returns (mca_io_bbview_file_preallocate env n)"
  unfolding returns_def
proof (intro allI impI)
  fix s :: "'a sys" assume r: "ready s"
  obtain s1 where s1: "lock s = Some s1" "held s1" using lock_ready [OF r] by blast
  obtain d where d: "data_of s1 = Some d" "view_wf d" using s1(2) by (auto simp: held_def)
  obtain c fh l where b: "preallocate_body env n (ompio_fh d) (lib s1) = Some (c, fh, l)"
    using preallocate_body_returns [OF assms] by blast
  have "held (put_data (d\<lparr>ompio_fh := fh\<rparr>) (s1\<lparr>lib := l\<rparr>))"
    using s1(2) d(2) by (simp add: held_def) (simp add: put_data_def)
  from unlock_held [OF this, of c] show "\<exists>q t. mca_io_bbview_file_preallocate env n s = Some (q, t) \<and> ready t"
    using s1(1) d(1) b by (simp add: mca_io_bbview_file_preallocate_def)
qed

lemma open_returns: "returns (mca_io_bbview_file_open env filename amode)"
  unfolding returns_def
proof (intro allI impI)
  fix s :: "'a sys" assume r: "ready s"
  obtain d where d: "data_of s = Some d" "view_wf d" "unlocked s" using r by (auto simp: ready_def)
  have f: "f_io_selected_data (hd_file s) \<noteq> Null_ptr" using d by (auto simp: data_of_def)
  obtain c fh l where "common_file_open env filename amode (ompio_fh d) (lib s) = (c, fh, l)" using prod_cases3 by blast
  then have c: "call_lib (common_file_open env filename amode) s = Some (c, put_data (d\<lparr>ompio_fh := fh\<rparr>) (s\<lparr>lib := l\<rparr>))"
    using d(1) by (simp add: call_lib_def)
  show "\<exists>q t. mca_io_bbview_file_open env filename amode s = Some (q, t) \<and> ready t"
    using f c d(2,3)
    by (simp add: mca_io_bbview_file_open_def ready_def put_data_def unlocked_def data_of_def)
qed

section \<open>The typed contract\<close>

text \<open>
  The calls that return in every ready state. Left out are the calls whose definedness depends on
  the view: \<open>get_view\<close> before the first view, positions with an element size of 0, and close,
  after which there is no private data.
\<close>

fun call_fits :: "'x module_env \<Rightarrow> module_op \<Rightarrow> bool" where
  "call_fits env (File_set_view disp etype filetype datarep info) =
     (datarep \<noteq> None \<and> pack_ok (m_view env) filetype \<and> pack_ok (m_view env) etype \<and>
      use_o_direct (m_view env) filetype info \<noteq> None)"
| "call_fits env (File_preallocate n) = (0 \<le> n \<and> n \<le> 2 ^ 62 \<and> sizes_ok (m_pre env))"
| "call_fits env File_close = False"
| "call_fits env File_get_view = False"
| "call_fits env (File_seek off whence) = False"
| "call_fits env (File_get_byte_offset offset) = False"
| "call_fits env File_get_position_shared = False"
| "call_fits env c = True"

locale typed_machine = view_machine exec covers
  for exec :: "'c \<Rightarrow> 'x sys \<Rightarrow> ('r \<times> 'x sys) option" and covers :: "'c \<Rightarrow> bool" +
  fixes fits :: "'c \<Rightarrow> bool"
  assumes fits_returns: "fits c \<Longrightarrow> returns (exec c)" and fits_covers: "fits c \<Longrightarrow> covers c"
begin

lemma run_total:
  "list_all fits cs \<Longrightarrow> ready s \<Longrightarrow> \<exists>rs t. run exec cs s = Some (rs, t) \<and> ready t \<and> length rs = length cs"
proof (induction cs arbitrary: s)
  case (Cons c cs)
  obtain r u where u: "exec c s = Some (r, u)" "ready u"
    using fits_returns [of c] Cons.prems by (auto simp: returns_def)
  obtain rs t where "run exec cs u = Some (rs, t)" "ready t" "length rs = length cs"
    using Cons.IH [OF _ u(2)] Cons.prems(1) by auto
  then show ?case using u(1) by simp
qed simp

lemma run_total_path:
  assumes "list_all fits cs" "ready s"
  shows "\<exists>rs t. run exec cs s = Some (rs, t) \<and> ready t \<and> length rs = length cs \<and>
    (\<exists>a b. view_abs_of s = Some a \<and> view_abs_of t = Some b \<and> (view_step ^^ length cs) a b)"
proof -
  have "list_all covers cs" using assms(1) fits_covers by (simp add: list_all_iff)
  then show ?thesis using run_total [OF assms] run_path ready_live [OF assms(2)] by blast
qed

end

lemma replying_returns: "returns call \<Longrightarrow> returns (\<lambda>s. replying f (call s))"
  unfolding returns_def by (fastforce simp: replying_def)

lemma module_returns:
  assumes "call_fits env c"
  shows "returns (mca_io_bbview_module env c)"
proof -
  have eta: "returns (\<lambda>s. mca_io_bbview_module env c s) \<Longrightarrow> ?thesis" by simp
  show ?thesis
  proof (rule eta, cases c)
    case (File_set_view disp etype filetype datarep info)
    then obtain rep direct where "datarep = Some rep" "use_o_direct (m_view env) filetype info = Some direct"
      using assms by auto
    then show "returns (\<lambda>s. mca_io_bbview_module env c s)"
      using assms File_set_view by (auto intro!: replying_returns set_view_returns)
  next
    case File_get_amode
    then show "returns (\<lambda>s. mca_io_bbview_module env c s)"
      by (auto simp: returns_def ready_def replying_def mca_io_bbview_file_get_amode_def)
  next
    case File_get_type_extent
    then show "returns (\<lambda>s. mca_io_bbview_module env c s)"
      by (auto simp: returns_def ready_def replying_def mca_io_bbview_file_get_type_extent_def)
  qed (use assms in \<open>auto intro!: replying_returns ops_returns set_atomicity_returns preallocate_returns open_returns
        passes_returns [OF passes_dispatch] passes_returns [OF seek_shared_passes]\<close>)
qed

interpretation typed: typed_machine "mca_io_bbview_module env" "\<lambda>c. c \<noteq> File_close" "call_fits env" for env
  by unfold_locales (auto intro: module_returns)

section \<open>Properties\<close>

text \<open>C8: A session on a file as \<open>file_query\<close> hands it out: after any calls of the module table
  but close, fewer than 2^64 of them, that have all returned, the lock is free, the private data is
  there, at most as many views have been buffered as there were calls, and a file that is ACTIVE has
  buffered at least one, so that close will flush it.\<close>

theorem module_session_views:
  assumes "file_query True p ptr = (True, f_io_selected_data (hd_file s), prio)" "unlocked s"
    and "File_close \<notin> set cs" "length cs < 2 ^ 64" "run (mca_io_bbview_module env) cs s = Some (rs, t)"
  shows "unlocked t \<and> length rs = length cs \<and>
    (\<exists>d. data_of t = Some d \<and> unat (view_index d) \<le> length cs \<and>
      (state d = BBVIEW_STATE_ACTIVE \<longrightarrow> view_index d \<noteq> 0))"
proof -
  have a: "view_abs_of s = Some (BBVIEW_STATE_DEFAULT, 0)"
    using assms(1) by (simp add: file_query_def view_abs_of_def data_of_def view_abs_def split: data_ptr.splits) auto
  have "list_all (\<lambda>c. c \<noteq> File_close) cs" using assms(3) by (auto simp: list_all_iff)
  from module.run_path [OF this _ assms(5)] obtain b
    where b: "live t" "length rs = length cs" "view_abs_of t = Some b" "(view_step ^^ length cs) (BBVIEW_STATE_DEFAULT, 0) b"
    using a assms(2) by (auto simp: live_def)
  have "unat (snd b) \<le> length cs \<and> (fst b = BBVIEW_STATE_ACTIVE \<longrightarrow> snd b \<noteq> 0)"
    using view_path_count [OF b(4)] assms(4) by simp
  then show ?thesis using b by (auto simp: live_def view_abs_of_def view_abs_def)
qed

text \<open>C21: Fallback is final: once a file has left the buffering for good, no sequence of calls brings
  it back, and the number of its views stays.\<close>

theorem module_fallback_final:
  assumes "unlocked s" "data_of s = Some d" "state d = BBVIEW_STATE_FALLBACK"
    and "File_close \<notin> set cs" "run (mca_io_bbview_module env) cs s = Some (rs, t)"
  shows "\<exists>d'. data_of t = Some d' \<and> state d' = BBVIEW_STATE_FALLBACK \<and> view_index d' = view_index d"
proof -
  have a: "view_abs_of s = Some (BBVIEW_STATE_FALLBACK, view_index d)"
    using assms(2,3) by (simp add: view_abs_of_def view_abs_def)
  have "list_all (\<lambda>c. c \<noteq> File_close) cs" using assms(4) by (auto simp: list_all_iff)
  from module.run_path [OF this _ assms(5)] obtain b
    where b: "view_abs_of t = Some b" "(view_step ^^ length cs) (BBVIEW_STATE_FALLBACK, view_index d) b"
    using a assms(1) by (auto simp: live_def)
  from view_step_absorbs [OF relpowp_imp_rtranclp [OF b(2)]] have "b = (BBVIEW_STATE_FALLBACK, view_index d)" by simp
  then show ?thesis using b(1) by (auto simp: view_abs_of_def view_abs_def)
qed

text \<open>C3: In a state whose saved view is complete, every sequence of calls that fit (views with types
  that the library can pack and whose direct I/O test is defined, sizes in range) returns: no call
  takes the lock twice, follows a null pointer or divides by zero, each leaves a state of the same
  kind, and the view state follows the abstract machine. The private data that \<open>file_query\<close>
  hands out is complete in this sense.\<close>

theorem module_session_returns:
  assumes "list_all (call_fits env) cs" "unlocked s"
    and "data_of s = Some d" "view_wf d"
  shows "(\<exists>rs t. run (mca_io_bbview_module env) cs s = Some (rs, t) \<and> ready t \<and> length rs = length cs \<and>
      (\<exists>a b. view_abs_of s = Some a \<and> view_abs_of t = Some b \<and> (view_step ^^ length cs) a b)) \<and>
    (\<exists>d0. file_query True p ptr = (True, Live d0, priority_param p) \<and> view_wf d0)"
proof
  have "ready s" using assms(2-4) by (auto simp: ready_def)
  from typed.run_total_path [OF assms(1) this]
  show "\<exists>rs t. run (mca_io_bbview_module env) cs s = Some (rs, t) \<and> ready t \<and> length rs = length cs \<and>
      (\<exists>a b. view_abs_of s = Some a \<and> view_abs_of t = Some b \<and> (view_step ^^ length cs) a b)" .
  show "\<exists>d0. file_query True p ptr = (True, Live d0, priority_param p) \<and> view_wf d0"
    by (simp add: file_query_def view_wf_def zeroed_data_def desc_of_eq user_bytes_def)
qed

definition demo_ops :: "unit ops_env" where
  "demo_ops = \<lparr>bcast_offset = (\<lambda>x _. (OMPI_SUCCESS, x)), bcast_int = (\<lambda>x _. x), barrier = (\<lambda>_. OMPI_SUCCESS),
     fs_set_size = (\<lambda>_ fh l. (OMPI_SUCCESS, fh, l)), fs_file_sync = (\<lambda>fh l. (OMPI_SUCCESS, fh, l)),
     common_get_size = (\<lambda>_ _. (OMPI_SUCCESS, 0)), check_atomicity = (\<lambda>_ _. True), requests_pending = (\<lambda>_. False),
     opal_type_extent = (\<lambda>_. 4), rdonly_bit = 2\<rparr>"

definition demo_pre :: "unit pre_env" where
  "demo_pre = \<lparr>ompio_root = 0, pre_bcast = (\<lambda>x _. (OMPI_SUCCESS, x)), pre_get_size = (\<lambda>_ _. (OMPI_SUCCESS, 0)),
     pre_position = (\<lambda>_ _. 0), pre_malloc = None, pre_read = (\<lambda>n buf fh l. (OMPI_SUCCESS, buf, fh, l)),
     pre_write = (\<lambda>_ fh l. (OMPI_SUCCESS, fh, l)), pre_seek = (\<lambda>_ fh l. (OMPI_SUCCESS, fh, l)),
     pre_bcast_ret = (\<lambda>r _. r), pre_set_size = (\<lambda>_ fh l. (OMPI_SUCCESS, fh, l))\<rparr>"

definition demo_module :: "unit module_env" where
  "demo_module = \<lparr>m_view = demo_env, m_io = demo_io, m_ops = demo_ops, m_pos = demo_pos, m_pre = demo_pre\<rparr>"

definition demo_calls :: "module_op list" where
  "demo_calls = [File_set_view 16 mpi_int demo_vector (Some ''native'') None, File_io Write True demo_args,
     File_sync, File_set_view 0 mpi_byte mpi_byte (Some ''native'') None, File_set_atomicity 1, File_get_size]"

definition fresh_sys :: "unit sys" where
  "fresh_sys = put_data zeroed_data demo_sys"

lemma demo_fits: "list_all (call_fits demo_module) demo_calls"
proof -
  have p: "pack_ok demo_env ty" for ty by (simp add: pack_ok_def demo_env_def)
  have "use_o_direct demo_env demo_vector None = Some False" using demo_ok(1) by (simp add: view_env_ok_def)
  moreover have "use_o_direct demo_env mpi_byte None \<noteq> None"
    by (simp add: use_o_direct_def demo_env_def mpi_byte_def directio_node_def named_case_def all_calls_def
        c_mod_def smod_nonneg)
  ultimately show ?thesis using p by (simp add: demo_calls_def demo_module_def)
qed

lemma fresh_ready: "ready fresh_sys" "unlocked fresh_sys" "data_of fresh_sys = Some zeroed_data" "view_wf zeroed_data"
  by (simp_all add: ready_def fresh_sys_def view_wf_def zeroed_data_def desc_of_eq user_bytes_def)
     (simp_all add: unlocked_def put_data_def demo_sys_def)

lemma fresh_query: "file_query True p ptr = (True, f_io_selected_data (hd_file fresh_sys), priority_param p)"
  by (simp add: file_query_def fresh_sys_def put_data_def zeroed_data_def)

theorem module_session_returns_witness:
  "\<exists>rs t. run (mca_io_bbview_module demo_module) demo_calls fresh_sys = Some (rs, t) \<and> ready t \<and> length rs = 6"
proof -
  have "length demo_calls = 6" by (simp add: demo_calls_def)
  then show ?thesis using module_session_returns [OF demo_fits fresh_ready(2-4)] by metis
qed

theorem module_session_views_witness:
  "\<exists>rs t d. run (mca_io_bbview_module demo_module) demo_calls fresh_sys = Some (rs, t) \<and> unlocked t \<and>
    data_of t = Some d \<and> unat (view_index d) \<le> 6"
proof -
  obtain rs t where r: "run (mca_io_bbview_module demo_module) demo_calls fresh_sys = Some (rs, t)"
    using typed.run_total [OF demo_fits fresh_ready(1)] by blast
  have "File_close \<notin> set demo_calls" "length demo_calls = 6" by (simp_all add: demo_calls_def)
  then show ?thesis
    using module_session_views [OF fresh_query fresh_ready(2) _ _ r] r by auto
qed

definition fallback_sys :: "unit sys" where
  "fallback_sys = put_data (zeroed_data\<lparr>state := BBVIEW_STATE_FALLBACK, view_index := 2\<rparr>) demo_sys"

theorem module_fallback_final_witness:
  "\<exists>rs t d. run (mca_io_bbview_module demo_module) demo_calls fallback_sys = Some (rs, t) \<and>
    data_of t = Some d \<and> state d = BBVIEW_STATE_FALLBACK \<and> view_index d = 2"
proof -
  have s: "unlocked fallback_sys" "data_of fallback_sys = Some (zeroed_data\<lparr>state := BBVIEW_STATE_FALLBACK, view_index := 2\<rparr>)"
    by (simp_all add: fallback_sys_def) (simp add: unlocked_def put_data_def demo_sys_def)
  have "ready fallback_sys" using s fresh_ready(4) by (simp add: ready_def view_wf_def desc_of_eq)
  then obtain rs t where r: "run (mca_io_bbview_module demo_module) demo_calls fallback_sys = Some (rs, t)"
    using typed.run_total [OF demo_fits] by blast
  have "File_close \<notin> set demo_calls" by (simp add: demo_calls_def)
  then show ?thesis using module_fallback_final [OF s _ _ r] r by auto
qed

end
