(* ===== verification/BBV_Queue.thy ===== *)
theory BBV_Queue
  imports BBV_Names
begin

text \<open>
  The job queue of \<open>bbviewd\<close> (\<open>enqueue\<close>, \<open>dequeue\<close>, \<open>bbviewd.c\<close> lines 42--96): a singly
  linked list with \<open>q_head\<close> and \<open>q_tail\<close> pointers into a store of nodes. Dereferencing an
  address that holds no node, and freeing one, is undefined. The section of each function
  between \<open>pthread_mutex_lock\<close> and \<open>pthread_mutex_unlock\<close> is one operation here; the waiting
  loop is in the theory of the daemon. A fresh address is never one in use: \<open>q_fresh\<close> is
  above them all.
\<close>

section \<open>State\<close>

record job =
  src :: string
  next_job :: "nat option"

record job_queue =
  q_nodes :: "nat \<Rightarrow> job option"
  q_head :: "nat option"
  q_tail :: "nat option"
  q_fresh :: nat

definition empty_queue :: job_queue where
  "empty_queue = \<lparr>q_nodes = Map.empty, q_head = None, q_tail = None, q_fresh = 0\<rparr>"

section \<open>The program\<close>

text \<open>
  \<open>calloc\<close> may fail, and then the job is dropped with a log message. The copy of the path is cut
  to the size of the field.
\<close>

definition enqueue :: "bool \<Rightarrow> string \<Rightarrow> job_queue \<Rightarrow> job_queue option" where
  "enqueue calloc_ok path q =
     (if \<not> calloc_ok then Some q
      else
        (let j = q_fresh q;
             nodes = (q_nodes q)(j \<mapsto> \<lparr>src = fit PATH_MAX path, next_job = None\<rparr>);
             q1 = q\<lparr>q_nodes := nodes, q_fresh := j + 1\<rparr>
         in case q_tail q of
              None \<Rightarrow> Some (q1\<lparr>q_head := Some j, q_tail := Some j\<rparr>)
            | Some t \<Rightarrow>
                (case nodes t of
                   None \<Rightarrow> None
                 | Some n \<Rightarrow>
                     Some (q1\<lparr>q_nodes := nodes(t \<mapsto> n\<lparr>next_job := Some j\<rparr>), q_tail := Some j\<rparr>))))"

text \<open>The part of \<open>dequeue\<close> after the wait: no job, or the first one, freed after the copy.\<close>

definition dequeue :: "job_queue \<Rightarrow> (string option \<times> job_queue) option" where
  "dequeue q =
     (case q_head q of
        None \<Rightarrow> Some (None, q)
      | Some j \<Rightarrow>
          (case q_nodes q j of
             None \<Rightarrow> None
           | Some n \<Rightarrow>
               (let q1 = q\<lparr>q_head := next_job n\<rparr>;
                    q2 = (if q_head q1 = None then q1\<lparr>q_tail := None\<rparr> else q1)
                in Some (Some (src n), q2\<lparr>q_nodes := (q_nodes q)(j := None)\<rparr>))))"

section \<open>The list in the store\<close>

fun lseg :: "(nat \<Rightarrow> job option) \<Rightarrow> nat option \<Rightarrow> nat list \<Rightarrow> bool" where
  "lseg h p [] = (p = None)"
| "lseg h p (a # as) =
     (p = Some a \<and> (case h a of None \<Rightarrow> False | Some n \<Rightarrow> lseg h (next_job n) as))"

definition chain_ok :: "job_queue \<Rightarrow> nat list \<Rightarrow> bool" where
  "chain_ok q as \<longleftrightarrow> lseg (q_nodes q) (q_head q) as \<and> distinct as \<and>
     q_tail q = (if as = [] then None else Some (last as)) \<and>
     dom (q_nodes q) = set as \<and> (\<forall>a \<in> set as. a < q_fresh q)"

definition holds :: "job_queue \<Rightarrow> string list \<Rightarrow> bool" where
  "holds q xs \<longleftrightarrow> (\<exists>as. chain_ok q as \<and> map (\<lambda>a. map_option src (q_nodes q a)) as = map Some xs)"

lemma lseg_upd_other: "a \<notin> set as \<Longrightarrow> lseg (h(a := n)) p as = lseg h p as"
  by (induction as arbitrary: p) (auto split: option.splits)

lemma lseg_snoc:
  assumes "lseg h p (as @ [t])" "distinct (as @ [t])" "b \<notin> set (as @ [t])"
    and "h t = Some n"
  shows "lseg (h(b \<mapsto> m\<lparr>next_job := None\<rparr>, t \<mapsto> n\<lparr>next_job := Some b\<rparr>)) p (as @ [t, b])"
  using assms by (induction as arbitrary: p) (auto split: option.splits)

lemma holds_empty: "holds empty_queue []"
  by (auto simp: holds_def chain_ok_def empty_queue_def intro!: exI [of _ "[]"])

lemma enqueue_holds:
  assumes "holds q xs"
  shows "\<exists>q'. enqueue True path q = Some q' \<and> holds q' (xs @ [fit PATH_MAX path])"
proof -
  obtain as where ch: "chain_ok q as" and xs: "map (\<lambda>a. map_option src (q_nodes q a)) as = map Some xs"
    using assms by (auto simp: holds_def)
  let ?j = "q_fresh q" and ?job = "\<lparr>src = fit PATH_MAX path, next_job = None\<rparr>"
  have j: "?j \<notin> set as" using ch by (auto simp: chain_ok_def)
  show ?thesis
  proof (cases as rule: rev_cases)
    case Nil
    let ?q = "q\<lparr>q_nodes := (q_nodes q)(?j \<mapsto> ?job), q_fresh := ?j + 1, q_head := Some ?j, q_tail := Some ?j\<rparr>"
    have "enqueue True path q = Some ?q" "chain_ok ?q [?j]"
      using ch Nil by (simp_all add: enqueue_def chain_ok_def Let_def)
    moreover have "xs = []" using xs Nil by simp
    ultimately show ?thesis unfolding holds_def by (auto intro!: exI [of _ "[?j]"])
  next
    case (snoc bs t)
    obtain n where n: "q_nodes q t = Some n" using ch snoc by (auto simp: chain_ok_def)
    let ?h = "(q_nodes q)(?j \<mapsto> ?job, t \<mapsto> n\<lparr>next_job := Some ?j\<rparr>)"
    let ?q = "q\<lparr>q_nodes := ?h, q_fresh := ?j + 1, q_tail := Some ?j\<rparr>"
    have "lseg ?h (q_head q) (bs @ [t, ?j])"
      using lseg_snoc [of "q_nodes q" "q_head q" bs t ?j n "?job"] ch j n snoc
      by (simp add: chain_ok_def)
    then have "chain_ok ?q (as @ [?j])"
      using ch j snoc n by (auto simp: chain_ok_def)
    moreover have "map (\<lambda>a. map_option src (?h a)) (as @ [?j]) = map Some (xs @ [fit PATH_MAX path])"
    proof -
      have "map (\<lambda>a. map_option src (?h a)) as = map (\<lambda>a. map_option src (q_nodes q a)) as"
        by (rule map_cong [OF refl]) (use j n snoc in auto)
      moreover have "map_option src (?h ?j) = Some (fit PATH_MAX path)" using j snoc by auto
      ultimately show ?thesis using xs by simp
    qed
    moreover have "enqueue True path q = Some ?q"
      using ch snoc n j by (auto simp: enqueue_def chain_ok_def Let_def)
    ultimately show ?thesis unfolding holds_def by force
  qed
qed

lemma dequeue_holds:
  assumes "holds q xs"
  shows "(xs = [] \<and> dequeue q = Some (None, q)) \<or>
    (\<exists>q'. xs \<noteq> [] \<and> dequeue q = Some (Some (hd xs), q') \<and> holds q' (tl xs))"
proof -
  obtain as where ch: "chain_ok q as" and xs: "map (\<lambda>a. map_option src (q_nodes q a)) as = map Some xs"
    using assms by (auto simp: holds_def)
  show ?thesis
  proof (cases as)
    case Nil
    then show ?thesis using ch xs by (simp add: chain_ok_def dequeue_def)
  next
    case (Cons a bs)
    then obtain n where n: "q_nodes q a = Some n" "q_head q = Some a" "lseg (q_nodes q) (next_job n) bs"
      using ch by (auto simp: chain_ok_def split: option.splits)
    obtain x ys where x: "xs = x # ys" "src n = x" "map (\<lambda>a. map_option src (q_nodes q a)) bs = map Some ys"
      using xs Cons n(1) by (cases xs) auto
    let ?h = "(q_nodes q)(a := None)"
    have a: "a \<notin> set bs" using ch Cons by (simp add: chain_ok_def)
    then have "lseg ?h (next_job n) bs" using n(3) by (simp add: lseg_upd_other)
    then have next_None: "next_job n = None \<longleftrightarrow> bs = []" by (cases bs) auto
    let ?q = "(if next_job n = None then q\<lparr>q_head := None, q_tail := None, q_nodes := ?h\<rparr>
               else q\<lparr>q_head := next_job n, q_nodes := ?h\<rparr>)"
    have "dequeue q = Some (Some x, ?q)" using n x by (auto simp: dequeue_def Let_def)
    moreover have "chain_ok ?q bs"
      using ch Cons a \<open>lseg ?h (next_job n) bs\<close> next_None by (auto simp: chain_ok_def)
    moreover have "map (\<lambda>a. map_option src (q_nodes ?q a)) bs = map Some ys"
    proof -
      have "map (\<lambda>a. map_option src (q_nodes ?q a)) bs = map (\<lambda>a. map_option src (q_nodes q a)) bs"
        by (rule map_cong [OF refl]) (use a in auto)
      then show ?thesis using x(3) by simp
    qed
    ultimately show ?thesis using x(1) unfolding holds_def by auto
  qed
qed

section \<open>The interface\<close>

text \<open>A run of operations: \<open>Some x\<close> puts \<open>x\<close> in, \<open>None\<close> asks for the next entry.\<close>

fun fifo_run :: "('a \<Rightarrow> 'q \<Rightarrow> 'q option) \<Rightarrow> ('q \<Rightarrow> ('a option \<times> 'q) option) \<Rightarrow> 'a option list \<Rightarrow> 'q
    \<Rightarrow> ('a list \<times> 'q) option" where
  "fifo_run enq deq [] q = Some ([], q)"
| "fifo_run enq deq (Some x # ops) q = do {
     q1 \<leftarrow> enq x q;
     fifo_run enq deq ops q1 }"
| "fifo_run enq deq (None # ops) q = do {
     (r, q1) \<leftarrow> deq q;
     (out, q2) \<leftarrow> fifo_run enq deq ops q1;
     Some ((case r of None \<Rightarrow> out | Some x \<Rightarrow> x # out), q2) }"

definition put_in :: "'a option list \<Rightarrow> 'a list" where
  "put_in ops = List.map_filter (\<lambda>x. x) ops"

lemma put_in_simps [simp]:
  "put_in [] = []" "put_in (Some x # ops) = x # put_in ops" "put_in (None # ops) = put_in ops"
  by (simp_all add: put_in_def List.map_filter_def)

text \<open>What the workers and the listener rely on.\<close>

locale fifo =
  fixes holds_q :: "'q \<Rightarrow> 'a list \<Rightarrow> bool" and enq :: "'a \<Rightarrow> 'q \<Rightarrow> 'q option"
    and deq :: "'q \<Rightarrow> ('a option \<times> 'q) option" and clip :: "'a \<Rightarrow> 'a" and start :: 'q
  assumes start_empty: "holds_q start []"
    and enq_last: "holds_q q xs \<Longrightarrow> \<exists>q'. enq x q = Some q' \<and> holds_q q' (xs @ [clip x])"
    and deq_none: "holds_q q [] \<Longrightarrow> deq q = Some (None, q)"
    and deq_first: "holds_q q (x # xs) \<Longrightarrow> \<exists>q'. deq q = Some (Some x, q') \<and> holds_q q' xs"
begin

lemma run_order:
  assumes "holds_q q xs"
  shows "\<exists>out q' rest. fifo_run enq deq ops q = Some (out, q') \<and> holds_q q' rest \<and>
    out @ rest = xs @ map clip (put_in ops)"
  using assms
proof (induction ops arbitrary: q xs)
  case (Cons op ops)
  show ?case
  proof (cases op)
    case (Some x)
    then obtain q1 where "enq x q = Some q1" "holds_q q1 (xs @ [clip x])" using enq_last [OF Cons.prems] by blast
    then show ?thesis using Cons.IH [of q1 "xs @ [clip x]"] Some by auto
  next
    case op: None
    show ?thesis
    proof (cases xs)
      case Nil
      then show ?thesis using Cons.IH [OF Cons.prems] deq_none [of q] Cons.prems op by auto
    next
      case (Cons x ys)
      then obtain q1 where "deq q = Some (Some x, q1)" "holds_q q1 ys"
        using deq_first \<open>holds_q q xs\<close> by blast
      then show ?thesis using Cons.IH [of q1 ys] Cons op by fastforce
    qed
  qed
qed auto

end

interpretation job_fifo: fifo holds "enqueue True" dequeue "fit PATH_MAX" empty_queue
proof
  fix q x xs
  show "holds empty_queue []" by (rule holds_empty)
  show "holds q xs \<Longrightarrow> \<exists>q'. enqueue True x q = Some q' \<and> holds q' (xs @ [fit PATH_MAX x])"
    by (rule enqueue_holds)
  show "holds q [] \<Longrightarrow> dequeue q = Some (None, q)" using dequeue_holds [of q "[]"] by auto
  show "holds q (x # xs) \<Longrightarrow> \<exists>q'. dequeue q = Some (Some x, q') \<and> holds q' xs"
    using dequeue_holds [of q "x # xs"] by auto
qed

lemma holds_card: "holds q xs \<Longrightarrow> finite (dom (q_nodes q)) \<and> card (dom (q_nodes q)) = length xs"
proof -
  assume "holds q xs"
  then obtain as where "chain_ok q as" "map (\<lambda>a. map_option src (q_nodes q a)) as = map Some xs"
    by (auto simp: holds_def)
  then show ?thesis by (metis List.finite_set chain_ok_def distinct_card length_map)
qed

section \<open>Properties\<close>

text \<open>C9: the pointer queue is a first-in first-out queue: any mix of enqueue and dequeue
  calls from the empty queue is free of undefined behaviour, hands out the paths (cut to the
  size of the field) in the order they came in, each once, and keeps exactly one node
  allocated per waiting job.\<close>

theorem queue_fifo:
  "\<exists>out q' rest. fifo_run (enqueue True) dequeue ops empty_queue = Some (out, q') \<and> holds q' rest \<and>
     out @ rest = map (fit PATH_MAX) (put_in ops) \<and> card (dom (q_nodes q')) = length rest"
  using job_fifo.run_order [OF job_fifo.start_empty, of ops] holds_card by fastforce

text \<open>When \<open>calloc\<close> fails the job is dropped: \<open>enqueue\<close> returns with the queue
  unchanged, and its caller has no way to notice.\<close>

theorem enqueue_oom_drops: "enqueue False path q = Some q"
  by (simp add: enqueue_def)

end
