(* ===== verification/BBV_Daemon.thy ===== *)
theory BBV_Daemon
  imports BBV_Queue
begin

text \<open>
  The threads of \<open>bbviewd\<close> (\<open>bbviewd.c\<close>): the messages that \<open>listener_loop\<close> accepts, and the
  listener and the workers as a step relation. A step is one action of one thread: what runs
  while \<open>q_mtx\<close> is held is one step, except that the test of the wait loop and the wait
  itself are two steps of a worker that holds the mutex in between; setting \<open>shutting_down\<close>
  and broadcasting are two steps of the listener, neither of which takes the mutex; when
  \<open>enqueue\<close> gets no memory the job that was received is dropped before the mutex is taken. The job
  queue is the list that the pointer queue of \<open>BBV_Queue\<close> refines.
\<close>

section \<open>Messages\<close>

datatype message = Ignored | Terminate | Job string

text \<open>
  Lines 312--333 for the \<open>n\<close> bytes read from a connection: a buffer of \<open>PATH_MAX + 16\<close>
  bytes, of which the last stays zero.
\<close>

definition listener_message :: "string \<Rightarrow> message" where
  "listener_message sent =
     (let buf = c_string (take (PATH_MAX + 15) sent) in
      if sent = [] then Ignored
      else if strncmp_eq buf ''terminate'' 9 then Terminate
      else Job (takeWhile (\<lambda>c. c \<noteq> CHR 0x0A) buf))"

lemma strncmp_eq_append:
  "length s \<ge> n \<Longrightarrow> length t \<ge> n \<Longrightarrow> strncmp_eq (s @ u) t n = strncmp_eq s t n"
  unfolding strncmp_eq_def by simp

section \<open>State\<close>

datatype wpc =
    W_Start            \<comment> \<open>created, \<open>active_workers\<close> not yet incremented\<close>
  | W_Loop             \<comment> \<open>about to lock \<open>q_mtx\<close> in \<open>dequeue\<close>, or to lock it again after a wake-up\<close>
  | W_Check            \<comment> \<open>holds \<open>q_mtx\<close>, has seen an empty queue and no shutdown, about to wait\<close>
  | W_Sleep            \<comment> \<open>blocked in \<open>pthread_cond_wait\<close>, mutex released\<close>
  | W_Run string       \<comment> \<open>works on a job\<close>
  | W_Leave            \<comment> \<open>\<open>dequeue\<close> returned 0\<close>
  | W_Done             \<comment> \<open>\<open>active_workers\<close> decremented\<close>

datatype lpc =
    L_Accept           \<comment> \<open>in the accept loop\<close>
  | L_Broadcast        \<comment> \<open>\<open>shutting_down\<close> set, broadcast to come\<close>
  | L_Poll             \<comment> \<open>polls \<open>active_workers\<close>\<close>
  | L_Done             \<comment> \<open>\<open>done\<close> written to the terminating client\<close>
  | L_Failed           \<comment> \<open>\<open>accept\<close> failed: left the loop without a terminating client\<close>

record daemon =
  pcs :: "wpc list"
  active_workers :: int
  shutting_down :: bool
  jobs :: "string list"
  listener :: lpc
  mutex :: "nat option"
  accepted :: "string list"    \<comment> \<open>history: every job put into the queue\<close>
  taken :: "string list"       \<comment> \<open>history: every job handed to a worker\<close>
  finished :: "string list"    \<comment> \<open>history: every job whose worker is back in the loop\<close>
  dropped :: "string list"     \<comment> \<open>history: every job for which \<open>enqueue\<close> got no memory\<close>

definition init_daemon :: "nat \<Rightarrow> daemon" where
  "init_daemon nthreads =
     \<lparr>pcs = replicate nthreads W_Start, active_workers = 0, shutting_down = False, jobs = [],
      listener = L_Accept, mutex = None, accepted = [], taken = [], finished = [], dropped = []\<rparr>"

abbreviation set_pc :: "daemon \<Rightarrow> nat \<Rightarrow> wpc \<Rightarrow> daemon" where
  "set_pc s i pc \<equiv> s\<lparr>pcs := (pcs s)[i := pc]\<rparr>"

definition wake :: "wpc \<Rightarrow> wpc" where
  "wake pc = (if pc = W_Sleep then W_Loop else pc)"

section \<open>The steps\<close>

inductive dstep :: "daemon \<Rightarrow> daemon \<Rightarrow> bool" where
  start: "i < length (pcs s) \<Longrightarrow> pcs s ! i = W_Start \<Longrightarrow>
     dstep s ((set_pc s i W_Loop)\<lparr>active_workers := active_workers s + 1\<rparr>)"
| check: "i < length (pcs s) \<Longrightarrow> pcs s ! i = W_Loop \<Longrightarrow> mutex s = None \<Longrightarrow> jobs s = [] \<Longrightarrow>
     \<not> shutting_down s \<Longrightarrow> dstep s ((set_pc s i W_Check)\<lparr>mutex := Some i\<rparr>)"
| sleep: "i < length (pcs s) \<Longrightarrow> pcs s ! i = W_Check \<Longrightarrow>
     dstep s ((set_pc s i W_Sleep)\<lparr>mutex := None\<rparr>)"
| take_job: "i < length (pcs s) \<Longrightarrow> pcs s ! i = W_Loop \<Longrightarrow> mutex s = None \<Longrightarrow> jobs s = p # q \<Longrightarrow>
     dstep s ((set_pc s i (W_Run p))\<lparr>jobs := q, taken := taken s @ [p]\<rparr>)"
| finish: "i < length (pcs s) \<Longrightarrow> pcs s ! i = W_Run p \<Longrightarrow>
     dstep s ((set_pc s i W_Loop)\<lparr>finished := finished s @ [p]\<rparr>)"
| quit: "i < length (pcs s) \<Longrightarrow> pcs s ! i = W_Loop \<Longrightarrow> mutex s = None \<Longrightarrow> jobs s = [] \<Longrightarrow>
     shutting_down s \<Longrightarrow> dstep s (set_pc s i W_Leave)"
| leave: "i < length (pcs s) \<Longrightarrow> pcs s ! i = W_Leave \<Longrightarrow>
     dstep s ((set_pc s i W_Done)\<lparr>active_workers := active_workers s - 1\<rparr>)"
| spurious: "i < length (pcs s) \<Longrightarrow> pcs s ! i = W_Sleep \<Longrightarrow> dstep s (set_pc s i W_Loop)"
| enqueue_wake: "listener s = L_Accept \<Longrightarrow> mutex s = None \<Longrightarrow> i < length (pcs s) \<Longrightarrow> pcs s ! i = W_Sleep \<Longrightarrow>
     dstep s ((set_pc s i W_Loop)\<lparr>jobs := jobs s @ [p], accepted := accepted s @ [p]\<rparr>)"
| enqueue_alone: "listener s = L_Accept \<Longrightarrow> mutex s = None \<Longrightarrow> W_Sleep \<notin> set (pcs s) \<Longrightarrow>
     dstep s (s\<lparr>jobs := jobs s @ [p], accepted := accepted s @ [p]\<rparr>)"
| enqueue_dropped: "listener s = L_Accept \<Longrightarrow> dstep s (s\<lparr>dropped := dropped s @ [p]\<rparr>)"
| terminate: "listener s = L_Accept \<Longrightarrow> dstep s (s\<lparr>shutting_down := True, listener := L_Broadcast\<rparr>)"
| broadcast: "listener s = L_Broadcast \<Longrightarrow>
     dstep s (s\<lparr>pcs := map wake (pcs s), listener := L_Poll\<rparr>)"
| poll_done: "listener s = L_Poll \<Longrightarrow> active_workers s \<le> 0 \<Longrightarrow> dstep s (s\<lparr>listener := L_Done\<rparr>)"
| accept_failed: "listener s = L_Accept \<Longrightarrow> dstep s (s\<lparr>listener := L_Failed\<rparr>)"

inductive reachable :: "nat \<Rightarrow> daemon \<Rightarrow> bool" for nthreads where
  init: "reachable nthreads (init_daemon nthreads)"
| step: "reachable nthreads s \<Longrightarrow> dstep s t \<Longrightarrow> reachable nthreads t"

inductive_cases dstep_elim: "dstep s t"

section \<open>The invariant\<close>

definition is_active :: "wpc \<Rightarrow> bool" where
  "is_active pc \<longleftrightarrow> pc \<noteq> W_Start \<and> pc \<noteq> W_Done"

definition running :: "wpc list \<Rightarrow> string multiset" where
  "running ps = mset (List.map_filter (\<lambda>pc. case pc of W_Run p \<Rightarrow> Some p | _ \<Rightarrow> None) ps)"

definition daemon_inv :: "daemon \<Rightarrow> bool" where
  "daemon_inv s \<longleftrightarrow>
     accepted s = taken s @ jobs s \<and>
     mset (taken s) = mset (finished s) + running (pcs s) \<and>
     active_workers s = int (length (filter is_active (pcs s))) \<and>
     (shutting_down s \<longleftrightarrow> listener s \<in> {L_Broadcast, L_Poll, L_Done}) \<and>
     (\<forall>pc \<in> set (pcs s). pc \<in> {W_Leave, W_Done} \<longrightarrow> shutting_down s \<and> jobs s = [])"

lemma running_update:
  assumes "i < length ps"
  shows "running (ps[i := pc]) + running [ps ! i] = running ps + running [pc]"
proof -
  have s: "ps = take i ps @ ps ! i # drop (Suc i) ps" by (rule id_take_nth_drop [OF assms])
  have u: "ps[i := pc] = take i ps @ pc # drop (Suc i) ps" by (rule upd_conv_take_nth_drop [OF assms])
  have app: "running (a @ b # c) = running a + running [b] + running c" for a b c
    by (simp add: running_def List.map_filter_def split: wpc.split)
  show ?thesis unfolding u by (subst (4) s) (simp only: app ac_simps)
qed

lemma active_update:
  assumes "i < length ps"
  shows "length (filter is_active (ps[i := pc])) + (if is_active (ps ! i) then 1 else 0) =
    length (filter is_active ps) + (if is_active pc then 1 else 0)"
proof -
  have s: "ps = take i ps @ ps ! i # drop (Suc i) ps" by (rule id_take_nth_drop [OF assms])
  have u: "ps[i := pc] = take i ps @ pc # drop (Suc i) ps" by (rule upd_conv_take_nth_drop [OF assms])
  have app: "length (filter is_active (a @ b # c)) =
      length (filter is_active a) + (if is_active b then 1 else 0) + length (filter is_active c)" for a b c
    by simp
  have "length (filter is_active ps) = length (filter is_active (take i ps)) +
      (if is_active (ps ! i) then 1 else 0) + length (filter is_active (drop (Suc i) ps))"
    using app [of "take i ps" "ps ! i" "drop (Suc i) ps"] s by simp
  then show ?thesis unfolding u app by simp
qed

lemma running_pc [simp]:
  "running [W_Start] = {#}" "running [W_Loop] = {#}" "running [W_Check] = {#}" "running [W_Sleep] = {#}"
  "running [W_Leave] = {#}" "running [W_Done] = {#}" "running [W_Run p] = {#p#}"
  by (simp_all add: running_def List.map_filter_def)

lemma is_active_simps [simp]:
  "\<not> is_active W_Start" "\<not> is_active W_Done" "is_active W_Loop" "is_active W_Check" "is_active W_Sleep"
  "is_active W_Leave" "is_active (W_Run p)"
  by (simp_all add: is_active_def)

lemma running_wake: "running (map wake ps) = running ps"
  unfolding running_def by (induction ps) (auto simp: List.map_filter_def wake_def)

lemma active_wake: "filter is_active (map wake ps) = map wake (filter is_active ps)"
  by (induction ps) (auto simp: wake_def)

text \<open>The bookkeeping of a step that moves worker \<open>i\<close> to \<open>pc\<close>.\<close>

lemma move_inv:
  assumes "i < length (pcs s)"
  shows "running (pcs (set_pc s i pc)) + running [pcs s ! i] = running (pcs s) + running [pc]"
    and "int (length (filter is_active (pcs (set_pc s i pc)))) + (if is_active (pcs s ! i) then 1 else 0) =
      int (length (filter is_active (pcs s))) + (if is_active pc then 1 else 0)"
    and "set (pcs (set_pc s i pc)) \<subseteq> insert pc (set (pcs s))"
  using running_update [OF assms, of pc] active_update [OF assms, of pc] set_update_subset_insert [of "pcs s" i pc]
  by (auto split: if_splits)

lemma quit_pcs: "daemon_inv s \<Longrightarrow> pc \<in> set (pcs s) \<Longrightarrow> pc = W_Leave \<or> pc = W_Done \<Longrightarrow> shutting_down s \<and> jobs s = []"
  unfolding daemon_inv_def by blast


lemma daemon_inv_init: "daemon_inv (init_daemon n)"
proof -
  have "running (replicate n W_Start) = {#}" by (induction n) (simp_all add: running_def List.map_filter_def)
  then show ?thesis by (simp add: daemon_inv_def init_daemon_def)
qed

lemma daemon_inv_move:
  assumes inv: "daemon_inv s" and i: "i < length (pcs s)"
    and run: "running [pc] + fs = running [pcs s ! i] + ts"
    and act: "d = (if is_active pc then 1 else 0) - (if is_active (pcs s ! i) then 1 else (0::int))"
    and quit: "pc \<in> {W_Leave, W_Done} \<Longrightarrow> shutting_down s \<and> jobs s = []"
    and t: "pcs t = (pcs s)[i := pc]" "active_workers t = active_workers s + d"
      "shutting_down t = shutting_down s" "listener t = listener s"
      "accepted t = taken t @ jobs t"
      "mset (taken t) = mset (taken s) + ts" "mset (finished t) = mset (finished s) + fs"
      "shutting_down s \<Longrightarrow> jobs s = [] \<Longrightarrow> jobs t = []"
  shows "daemon_inv t"
proof -
  have R: "running (pcs t) + running [pcs s ! i] = running (pcs s) + running [pc]"
    using move_inv(1) [OF i, of pc] t by simp
  have "mset (taken s) = mset (finished s) + running (pcs s)" using inv by (simp add: daemon_inv_def)
  then have "mset (taken t) + running [pcs s ! i] = mset (finished t) + running (pcs t) + running [pcs s ! i]"
    using R run t(6,7) by (metis add.assoc add.commute)
  then have a: "mset (taken t) = mset (finished t) + running (pcs t)" by simp
  have b: "active_workers t = int (length (filter is_active (pcs t)))"
    using move_inv(2) [OF i, of pc] act t(1,2) inv by (auto simp: daemon_inv_def split: if_splits)
  have c: "\<forall>q \<in> set (pcs t). q \<in> {W_Leave, W_Done} \<longrightarrow> shutting_down t \<and> jobs t = []"
    using move_inv(3) [OF i, of pc] t quit inv by (auto simp: daemon_inv_def)
  have d: "shutting_down t \<longleftrightarrow> listener t \<in> {L_Broadcast, L_Poll, L_Done}"
    using inv t by (simp add: daemon_inv_def)
  show ?thesis unfolding daemon_inv_def using a b c d t(5) by blast
qed

lemma daemon_inv_step:
  assumes "dstep s t" and inv: "daemon_inv s"
  shows "daemon_inv t"
  using assms(1)
proof (cases rule: dstep.cases)
  case (start i) then show ?thesis
    by (intro daemon_inv_move [OF inv, of i W_Loop "{#}" "{#}" 1]) (use inv in \<open>auto simp: daemon_inv_def\<close>)
next
  case (check i) then show ?thesis
    by (intro daemon_inv_move [OF inv, of i W_Check "{#}" "{#}" 0]) (use inv in \<open>auto simp: daemon_inv_def\<close>)
next
  case (sleep i) then show ?thesis
    by (intro daemon_inv_move [OF inv, of i W_Sleep "{#}" "{#}" 0]) (use inv in \<open>auto simp: daemon_inv_def\<close>)
next
  case (take_job i p q) then show ?thesis
    by (intro daemon_inv_move [OF inv, of i "W_Run p" "{#}" "{#p#}" 0]) (use inv in \<open>auto simp: daemon_inv_def\<close>)
next
  case (finish i p) then show ?thesis
    by (intro daemon_inv_move [OF inv, of i W_Loop "{#p#}" "{#}" 0]) (use inv in \<open>auto simp: daemon_inv_def\<close>)
next
  case (quit i) then show ?thesis
    by (intro daemon_inv_move [OF inv, of i W_Leave "{#}" "{#}" 0]) (use inv in \<open>auto simp: daemon_inv_def\<close>)
next
  case (leave i)
  then have "shutting_down s \<and> jobs s = []" using quit_pcs [OF inv, of W_Leave] nth_mem by metis
  then show ?thesis using leave
    by (intro daemon_inv_move [OF inv, of i W_Done "{#}" "{#}" "- 1"]) (use inv in \<open>auto simp: daemon_inv_def\<close>)
next
  case (spurious i) then show ?thesis
    by (intro daemon_inv_move [OF inv, of i W_Loop "{#}" "{#}" 0]) (use inv in \<open>auto simp: daemon_inv_def\<close>)
next
  case (enqueue_wake i p)
  then show ?thesis
    by (intro daemon_inv_move [OF inv, of i W_Loop "{#}" "{#}" 0]) (use inv in \<open>auto simp: daemon_inv_def\<close>)
next
  case (enqueue_alone p) then show ?thesis using inv by (auto simp: daemon_inv_def)
next
  case (enqueue_dropped p) then show ?thesis using inv by (auto simp: daemon_inv_def)
next
  case terminate then show ?thesis using inv by (auto simp: daemon_inv_def)
next
  case broadcast
  have w: "wake q = W_Leave \<longleftrightarrow> q = W_Leave" "wake q = W_Done \<longleftrightarrow> q = W_Done" for q
    by (auto simp: wake_def)
  show ?thesis using inv broadcast
    by (auto simp: daemon_inv_def running_wake active_wake w)
next
  case poll_done then show ?thesis using inv by (auto simp: daemon_inv_def)
next
  case accept_failed then show ?thesis using inv by (auto simp: daemon_inv_def)
qed

lemma reachable_inv: "reachable n s \<Longrightarrow> daemon_inv s"
  by (induction rule: reachable.induct) (auto intro: daemon_inv_init daemon_inv_step)

lemma dstep_length: "dstep s t \<Longrightarrow> length (pcs t) = length (pcs s)"
  by (induction rule: dstep.induct) simp_all

lemma reachable_length: "reachable n s \<Longrightarrow> length (pcs s) = n"
  by (induction rule: reachable.induct) (simp_all add: init_daemon_def dstep_length)

section \<open>The mutex and the sleeping workers\<close>

definition lock_inv :: "daemon \<Rightarrow> bool" where
  "lock_inv s \<longleftrightarrow>
     (\<forall>i < length (pcs s). pcs s ! i = W_Check \<longrightarrow> mutex s = Some i) \<and>
     (\<forall>i. mutex s = Some i \<longrightarrow> i < length (pcs s) \<and> pcs s ! i = W_Check \<and> jobs s = []) \<and>
     (jobs s \<noteq> [] \<longrightarrow> (\<exists>i < length (pcs s). pcs s ! i \<noteq> W_Sleep))"

lemma lock_inv_init: "lock_inv (init_daemon n)"
  by (simp add: lock_inv_def init_daemon_def)

lemma lock_invD:
  assumes "lock_inv s"
  shows "i < length (pcs s) \<Longrightarrow> pcs s ! i = W_Check \<Longrightarrow> mutex s = Some i"
    and "mutex s = Some i \<Longrightarrow> i < length (pcs s)" "mutex s = Some i \<Longrightarrow> pcs s ! i = W_Check"
    and "mutex s = None \<or> jobs s = []"
  using assms unfolding lock_inv_def by (blast, blast, blast, cases "mutex s", blast+)

lemma lock_inv_same: "pcs t = pcs s \<Longrightarrow> mutex t = mutex s \<Longrightarrow> jobs t = jobs s \<Longrightarrow> lock_inv s \<Longrightarrow> lock_inv t"
  unfolding lock_inv_def by metis

lemma lock_inv_move:
  assumes inv: "lock_inv s" and i: "i < length (pcs s)"
    and t: "pcs t = (pcs s)[i := pc]"
    and m: "if pc = W_Check then mutex t = Some i \<and> mutex s = None
      else mutex t = (if pcs s ! i = W_Check then None else mutex s)"
    and q: "mutex t = None \<or> jobs t = []" "jobs t = [] \<or> pc \<noteq> W_Sleep"
  shows "lock_inv t"
  unfolding lock_inv_def
proof (intro conjI allI impI)
  fix k assume k: "k < length (pcs t)" "pcs t ! k = W_Check"
  show "mutex t = Some k"
  proof (cases "k = i")
    case True then show ?thesis using k i t m by simp
  next
    case False
    then have "mutex s = Some k" using k t lock_invD(1) [OF inv, of k] by simp
    moreover have "pcs s ! i \<noteq> W_Check" using False lock_invD(1) [OF inv i] calculation by auto
    ultimately show ?thesis using m by (auto split: if_splits)
  qed
next
  fix k assume k: "mutex t = Some k"
  have ks: "(pc = W_Check \<and> k = i) \<or> (pc \<noteq> W_Check \<and> pcs s ! i \<noteq> W_Check \<and> mutex s = Some k)"
    using m k by (auto split: if_splits)
  then have ki: "k = i \<Longrightarrow> pc = W_Check" using lock_invD(3) [OF inv, of k] by auto
  show "k < length (pcs t)" using ks t i lock_invD(2) [OF inv, of k] by auto
  show "pcs t ! k = W_Check"
    using ks ki t i lock_invD(3) [OF inv, of k] by (cases "k = i") auto
  show "jobs t = []" using k q by simp
next
  assume "jobs t \<noteq> []"
  then show "\<exists>k < length (pcs t). pcs t ! k \<noteq> W_Sleep"
    using q(2) i t by (intro exI [of _ i]) simp
qed

lemma lock_inv_step:
  assumes "dstep s t" and inv: "lock_inv s" and ne: "pcs s \<noteq> []"
  shows "lock_inv t"
  using assms(1)
proof (cases rule: dstep.cases)
  case (start i) then show ?thesis
    by (intro lock_inv_move [OF inv, of i _ W_Loop]) (use lock_invD(4) [OF inv] in auto)
next
  case (check i) then show ?thesis
    by (intro lock_inv_move [OF inv, of i _ W_Check]) auto
next
  case (sleep i) then show ?thesis
    by (intro lock_inv_move [OF inv, of i _ W_Sleep]) (use lock_invD(1,4) [OF inv] in auto)
next
  case (take_job i p q) then show ?thesis
    by (intro lock_inv_move [OF inv, of i _ "W_Run p"]) auto
next
  case (finish i p) then show ?thesis
    by (intro lock_inv_move [OF inv, of i _ W_Loop]) (use lock_invD(4) [OF inv] in auto)
next
  case (quit i) then show ?thesis
    by (intro lock_inv_move [OF inv, of i _ W_Leave]) auto
next
  case (leave i) then show ?thesis
    by (intro lock_inv_move [OF inv, of i _ W_Done]) (use lock_invD(4) [OF inv] in auto)
next
  case (spurious i) then show ?thesis
    by (intro lock_inv_move [OF inv, of i _ W_Loop]) (use lock_invD(4) [OF inv] in auto)
next
  case (enqueue_wake i p) then show ?thesis
    by (intro lock_inv_move [OF inv, of i _ W_Loop]) auto
next
  case (enqueue_alone p)
  then have "pcs s ! 0 \<noteq> W_Sleep" "0 < length (pcs s)" using ne nth_mem [of 0 "pcs s"] by fastforce+
  then show ?thesis using enqueue_alone inv by (auto simp: lock_inv_def)
next
  case broadcast
  have w: "wake q = W_Check \<longleftrightarrow> q = W_Check" "wake q \<noteq> W_Sleep" for q by (auto simp: wake_def)
  have "pcs t = map wake (pcs s)" "mutex t = mutex s" "jobs t = jobs s" using broadcast by simp_all
  then have e: "length (pcs t) = length (pcs s)" "mutex t = mutex s" "jobs t = jobs s"
      "\<And>k. k < length (pcs s) \<Longrightarrow> pcs t ! k = W_Check \<longleftrightarrow> pcs s ! k = W_Check"
      "\<And>k. k < length (pcs s) \<Longrightarrow> pcs t ! k \<noteq> W_Sleep"
    by (simp_all add: w)
  moreover have "0 < length (pcs s)" using ne by simp
  ultimately show ?thesis using inv unfolding lock_inv_def by metis
qed (rule lock_inv_same [OF _ _ _ inv]; simp)+

lemma reachable_lock:
  assumes "reachable n s" "0 < n" shows "lock_inv s"
  using assms(1)
proof (induction rule: reachable.induct)
  case (step s t)
  have "pcs s \<noteq> []" using reachable_length [OF step(1)] assms(2) by auto
  then show ?case using lock_inv_step step by blast
qed (rule lock_inv_init)

section \<open>Progress\<close>

text \<open>What a worker still has to do for the queue to drain.\<close>

definition pc_work :: "wpc \<Rightarrow> nat" where
  "pc_work pc = (case pc of W_Start \<Rightarrow> 1 | W_Run _ \<Rightarrow> 1 | _ \<Rightarrow> 0)"

definition work_left :: "daemon \<Rightarrow> nat" where
  "work_left s = 2 * length (jobs s) + sum_list (map pc_work (pcs s))"

lemma work_update: "i < length ps \<Longrightarrow>
    sum_list (map pc_work (ps[i := pc])) + pc_work (ps ! i) = sum_list (map pc_work ps) + pc_work pc"
  using elem_le_sum_list [of i "map pc_work ps"] by (simp add: map_update sum_list_update)

lemma pending_step:
  assumes r: "reachable n s" "0 < n" and pend: "jobs s \<noteq> [] \<or> (\<exists>p. W_Run p \<in> set (pcs s))"
  shows "\<exists>t. dstep s t \<and> work_left t < work_left s \<and> accepted t = accepted s"
proof -
  have lk: "lock_inv s" by (rule reachable_lock [OF r])
  have inv: "daemon_inv s" by (rule reachable_inv [OF r(1)])
  show ?thesis
  proof (cases "\<exists>p. W_Run p \<in> set (pcs s)")
    case True
    then obtain p i where i: "i < length (pcs s)" "pcs s ! i = W_Run p" by (metis in_set_conv_nth)
    show ?thesis
      using dstep.finish [OF i] work_update [OF i(1), of W_Loop] i(2)
      by (intro exI [of _ "(set_pc s i W_Loop)\<lparr>finished := finished s @ [p]\<rparr>"])
        (auto simp: work_left_def pc_work_def)
  next
    case False
    then have q: "jobs s \<noteq> []" using pend by simp
    then obtain i where i: "i < length (pcs s)" "pcs s ! i \<noteq> W_Sleep" using lk by (auto simp: lock_inv_def)
    have m: "mutex s = None" using q lock_invD(4) [OF lk] by simp
    have "pcs s ! i \<noteq> W_Check" "pcs s ! i \<noteq> W_Leave" "pcs s ! i \<noteq> W_Done" "\<forall>p. pcs s ! i \<noteq> W_Run p"
      using m q False lock_invD(1) [OF lk i(1)] quit_pcs [OF inv nth_mem [OF i(1)]] nth_mem [OF i(1)] by auto
    then consider "pcs s ! i = W_Start" | "pcs s ! i = W_Loop" using i by (cases "pcs s ! i") auto
    then show ?thesis
    proof cases
      case 1
      show ?thesis using dstep.start [OF i(1) 1] work_update [OF i(1), of W_Loop] 1
        by (intro exI [of _ "(set_pc s i W_Loop)\<lparr>active_workers := active_workers s + 1\<rparr>"])
          (auto simp: work_left_def pc_work_def)
    next
      case 2
      obtain p r where pr: "jobs s = p # r" using q by (cases "jobs s") auto
      show ?thesis using dstep.take_job [OF i(1) 2 m pr] work_update [OF i(1), of "W_Run p"] 2 pr
        by (intro exI [of _ "(set_pc s i (W_Run p))\<lparr>jobs := r, taken := taken s @ [p]\<rparr>"])
          (auto simp: work_left_def pc_work_def)
    qed
  qed
qed

lemma running_none: "(\<And>p. W_Run p \<notin> set ps) \<Longrightarrow> running ps = {#}"
  by (induction ps) (auto simp: running_def List.map_filter_def split: wpc.splits)

lemma drains_aux:
  assumes "0 < n"
  shows "reachable n s \<Longrightarrow> \<exists>t. dstep\<^sup>*\<^sup>* s t \<and> accepted t = accepted s \<and> reachable n t \<and>
    jobs t = [] \<and> (\<forall>p. W_Run p \<notin> set (pcs t))"
proof (induction "work_left s" arbitrary: s rule: less_induct)
  case less
  show ?case
  proof (cases "jobs s \<noteq> [] \<or> (\<exists>p. W_Run p \<in> set (pcs s))")
    case True
    obtain t where t: "dstep s t" "work_left t < work_left s" "accepted t = accepted s"
      using pending_step [OF less.prems assms True] by blast
    show ?thesis
      using less.hyps [OF t(2) reachable.step [OF less.prems t(1)]] t(1,3)
      by (metis converse_rtranclp_into_rtranclp)
  next
    case False
    then show ?thesis using less.prems by (intro exI [of _ s]) auto
  qed
qed

section \<open>Example runs\<close>

definition served :: "string \<Rightarrow> daemon" where
  "served p = \<lparr>pcs = [W_Done], active_workers = 0, shutting_down = True, jobs = [],
     listener = L_Poll, mutex = None, accepted = [p], taken = [p], finished = [p], dropped = []\<rparr>"

definition early_done :: "string \<Rightarrow> daemon" where
  "early_done p = \<lparr>pcs = [W_Start], active_workers = 0, shutting_down = True, jobs = [p],
     listener = L_Done, mutex = None, accepted = [p], taken = [], finished = [], dropped = []\<rparr>"

definition missed_wakeup :: daemon where
  "missed_wakeup = \<lparr>pcs = [W_Sleep], active_workers = 1, shutting_down = True, jobs = [],
     listener = L_Poll, mutex = None, accepted = [], taken = [], finished = [], dropped = []\<rparr>"

lemma reach_run:
  "reachable 1 (init_daemon 1\<lparr>pcs := [W_Run p], active_workers := 1, accepted := [p], taken := [p]\<rparr>)"
proof -
  have "reachable 1 (init_daemon 1\<lparr>pcs := [W_Loop], active_workers := 1\<rparr>)"
    using reachable.step [OF reachable.init dstep.start [of 0 "init_daemon 1"]]
    by (simp add: init_daemon_def)
  from reachable.step [OF this dstep.enqueue_alone [of _ p]]
  have "reachable 1 (init_daemon 1\<lparr>pcs := [W_Loop], active_workers := 1, accepted := [p], jobs := [p]\<rparr>)"
    by (simp add: init_daemon_def)
  from reachable.step [OF this dstep.take_job [of 0 _ p "[]"]]
  show ?thesis by (simp add: init_daemon_def)
qed

lemma reach_served: "reachable 1 (served p)"
proof -
  from reachable.step [OF reach_run dstep.finish [of 0 _ p]]
  have "reachable 1 (served p\<lparr>pcs := [W_Loop], active_workers := 1, shutting_down := False, listener := L_Accept\<rparr>)"
    by (simp add: init_daemon_def served_def)
  from reachable.step [OF this dstep.terminate]
  have "reachable 1 (served p\<lparr>pcs := [W_Loop], active_workers := 1, listener := L_Broadcast\<rparr>)"
    by (simp add: served_def)
  from reachable.step [OF this dstep.broadcast]
  have "reachable 1 (served p\<lparr>pcs := [W_Loop], active_workers := 1\<rparr>)" by (simp add: served_def wake_def)
  from reachable.step [OF this dstep.quit [of 0]]
  have "reachable 1 (served p\<lparr>pcs := [W_Leave], active_workers := 1\<rparr>)" by (simp add: served_def)
  from reachable.step [OF this dstep.leave [of 0]]
  show ?thesis by (simp add: served_def)
qed

lemma reach_early_done: "reachable 1 (early_done p)"
proof -
  from reachable.step [OF reachable.init dstep.enqueue_alone [of "init_daemon 1" p]]
  have "reachable 1 (early_done p\<lparr>shutting_down := False, listener := L_Accept\<rparr>)"
    by (simp add: init_daemon_def early_done_def)
  from reachable.step [OF this dstep.terminate]
  have "reachable 1 (early_done p\<lparr>listener := L_Broadcast\<rparr>)" by (simp add: early_done_def)
  from reachable.step [OF this dstep.broadcast]
  have "reachable 1 (early_done p\<lparr>listener := L_Poll\<rparr>)" by (simp add: early_done_def wake_def)
  from reachable.step [OF this dstep.poll_done]
  show ?thesis by (simp add: early_done_def)
qed

lemma reach_missed_wakeup: "reachable 1 missed_wakeup"
proof -
  from reachable.step [OF reachable.init dstep.start [of 0 "init_daemon 1"]]
  have "reachable 1 (missed_wakeup\<lparr>pcs := [W_Loop], shutting_down := False, listener := L_Accept\<rparr>)"
    by (simp add: init_daemon_def missed_wakeup_def)
  from reachable.step [OF this dstep.check [of 0]]
  have "reachable 1 (missed_wakeup\<lparr>pcs := [W_Check], mutex := Some 0, shutting_down := False, listener := L_Accept\<rparr>)"
    by (simp add: missed_wakeup_def)
  from reachable.step [OF this dstep.terminate]
  have "reachable 1 (missed_wakeup\<lparr>pcs := [W_Check], mutex := Some 0, listener := L_Broadcast\<rparr>)"
    by (simp add: missed_wakeup_def)
  from reachable.step [OF this dstep.broadcast]
  have "reachable 1 (missed_wakeup\<lparr>pcs := [W_Check], mutex := Some 0\<rparr>)"
    by (simp add: missed_wakeup_def wake_def)
  from reachable.step [OF this dstep.sleep [of 0]]
  show ?thesis by (simp add: missed_wakeup_def)
qed

lemma failed_stable:
  assumes "dstep\<^sup>*\<^sup>* s t" "daemon_inv s" "listener s = L_Failed"
  shows "daemon_inv t \<and> listener t = L_Failed"
  using assms(1)
proof (induction rule: rtranclp_induct)
  case (step u v)
  have "listener v = L_Failed" using step(2,3) by (auto elim: dstep.cases)
  then show ?case using step daemon_inv_step by blast
qed (use assms in simp)

section \<open>Properties\<close>

text \<open>C4: In every reachable state of the daemon the jobs handed to the workers, followed by
  the queue, are exactly the accepted jobs in the order of their arrival, and the jobs handed out
  are those finished together with those being run: no job is lost, duplicated or reordered.\<close>

theorem daemon_conservation:
  assumes "reachable nthreads s"
  shows "accepted s = taken s @ jobs s \<and> mset (taken s) = mset (finished s) + running (pcs s)"
  using reachable_inv [OF assms] by (simp_all add: daemon_inv_def)

theorem daemon_conservation_witness:
  "reachable 1 (init_daemon 1\<lparr>pcs := [W_Run ''a''], active_workers := 1, accepted := [''a''], taken := [''a'']\<rparr>) \<and>
   mset [''a''] = mset [] + running [W_Run ''a'']"
  using reach_run [of "''a''"] daemon_conservation [OF reach_run [of "''a''"]] by simp

text \<open>C18: From every reachable state of a daemon with a worker thread the threads can run on
  to a state in which every accepted job is finished; the queue never holds a job that all workers
  sleep through.\<close>

theorem daemon_drains:
  assumes "reachable nthreads s" "0 < nthreads"
  shows "\<exists>t. dstep\<^sup>*\<^sup>* s t \<and> accepted t = accepted s \<and> jobs t = [] \<and> mset (finished t) = mset (accepted s)"
proof -
  obtain t where t: "dstep\<^sup>*\<^sup>* s t" "accepted t = accepted s" "reachable nthreads t" "jobs t = []"
      "\<forall>p. W_Run p \<notin> set (pcs t)"
    using drains_aux [OF assms(2,1)] by blast
  then show ?thesis using reachable_inv [OF t(3)] running_none [of "pcs t"]
    by (intro exI [of _ t]) (simp add: daemon_inv_def)
qed

theorem daemon_drains_witness:
  "\<exists>t. dstep\<^sup>*\<^sup>* (early_done ''a'') t \<and> accepted t = [''a''] \<and> jobs t = [] \<and> mset (finished t) = mset [''a'']"
  using daemon_drains [OF reach_early_done [of "''a''"]] by (simp add: early_done_def)

text \<open>C19: When every worker has started, the \<open>done\<close> that the terminating client receives is
  true: the queue is empty, every accepted job is finished and every worker has left its loop.\<close>

theorem daemon_done_truthful:
  assumes "reachable nthreads s" "0 < nthreads" "W_Start \<notin> set (pcs s)" "listener s = L_Poll"
    and "dstep s t" "listener t = L_Done"
  shows "jobs t = [] \<and> mset (finished t) = mset (accepted t) \<and> set (pcs t) = {W_Done}"
proof -
  have t: "t = s\<lparr>listener := L_Done\<rparr> \<and> active_workers s \<le> 0"
    using assms(5,4,6) by (cases rule: dstep.cases) auto
  have inv: "daemon_inv s" by (rule reachable_inv [OF assms(1)])
  have "filter is_active (pcs s) = []" using t inv by (simp add: daemon_inv_def)
  then have "\<forall>pc \<in> set (pcs s). pc = W_Done"
    using assms(3) by (auto simp: filter_empty_conv is_active_def)
  moreover have "pcs s \<noteq> []" using reachable_length [OF assms(1)] assms(2) by auto
  ultimately have d: "set (pcs s) = {W_Done}" by (auto simp: neq_Nil_conv)
  have "jobs s = []" using quit_pcs [OF inv, of W_Done] d by simp
  moreover have "running (pcs s) = {#}" by (rule running_none) (use d in auto)
  ultimately show ?thesis using t d inv by (simp add: daemon_inv_def)
qed

theorem daemon_done_truthful_witness:
  "\<exists>t. reachable 1 (served ''a'') \<and> accepted (served ''a'') = [''a''] \<and> dstep (served ''a'') t \<and> listener t = L_Done \<and>
     jobs t = [] \<and> mset (finished t) = mset (accepted t) \<and> set (pcs t) = {W_Done}"
proof -
  let ?t = "served ''a''\<lparr>listener := L_Done\<rparr>"
  have s: "W_Start \<notin> set (pcs (served ''a''))" "listener (served ''a'') = L_Poll" "0 < (1::nat)"
    "accepted (served ''a'') = [''a'']" "listener ?t = L_Done"
    by (simp_all add: served_def)
  have d: "dstep (served ''a'') ?t"
    using dstep.poll_done [of "served ''a''"] by (simp add: served_def)
  show ?thesis
    using daemon_done_truthful [OF reach_served s(3,1,2) d s(5)] reach_served s(4,5) d by blast
qed

text \<open>C37: \<open>done\<close> can be sent while an accepted job has not even been taken from the queue: the
  listener counts only the workers that have run their first statement, and the terminate request
  may arrive before that.\<close>

theorem daemon_done_too_early:
  "reachable 1 (early_done p) \<and> listener (early_done p) = L_Done \<and>
   accepted (early_done p) = [p] \<and> jobs (early_done p) = [p] \<and> finished (early_done p) = []"
  using reach_early_done by (simp add: early_done_def)

text \<open>C36: The shutdown can be missed: the flag is set and the broadcast sent without the mutex,
  so both can fall between the test of a worker and its wait. The state after that is reachable
  and has only one step, a spurious wake-up of the worker; the listener polls for ever.\<close>

theorem daemon_lost_wakeup:
  "reachable 1 missed_wakeup \<and> shutting_down missed_wakeup \<and> listener missed_wakeup = L_Poll \<and>
   dstep missed_wakeup = (\<lambda>t. t = set_pc missed_wakeup 0 W_Loop)"
proof -
  have "dstep missed_wakeup t \<longleftrightarrow> t = set_pc missed_wakeup 0 W_Loop" for t
  proof
    assume "dstep missed_wakeup t"
    then show "t = set_pc missed_wakeup 0 W_Loop"
      by (cases rule: dstep.cases) (simp_all add: missed_wakeup_def)
  next
    assume "t = set_pc missed_wakeup 0 W_Loop"
    then show "dstep missed_wakeup t" using dstep.spurious [of 0 missed_wakeup] by (simp add: missed_wakeup_def)
  qed
  then show ?thesis using reach_missed_wakeup by (auto simp: missed_wakeup_def)
qed

text \<open>When \<open>accept\<close> fails the listener returns without the shutdown flag, and no worker
  ever leaves its loop after that: the joins in \<open>main\<close> never return.\<close>

theorem daemon_accept_failure_hangs:
  assumes "reachable nthreads s" "listener s = L_Failed" "dstep\<^sup>*\<^sup>* s t"
  shows "\<not> shutting_down t \<and> W_Leave \<notin> set (pcs t) \<and> W_Done \<notin> set (pcs t)"
  using failed_stable [OF assms(3) reachable_inv [OF assms(1)] assms(2)]
  by (auto simp: daemon_inv_def)

theorem daemon_accept_failure_hangs_witness:
  "\<not> shutting_down (init_daemon 2\<lparr>listener := L_Failed\<rparr>) \<and> W_Done \<notin> set (pcs (init_daemon 2))"
proof -
  have "reachable 2 (init_daemon 2\<lparr>listener := L_Failed\<rparr>)"
    by (rule reachable.step [OF reachable.init dstep.accept_failed]) (simp add: init_daemon_def)
  from daemon_accept_failure_hangs [OF this _ rtranclp.rtrancl_refl] show ?thesis by simp
qed

end
