(* ===== verification/BBV_Execute.thy ===== *)
theory BBV_Execute
  imports BBV_Xattr BBV_Directio
begin

text \<open>
  What a worker of \<open>bbviewd\<close> does with one job: the body of its loop and \<open>execute\<close>
  (\<open>bbviewd.c\<close>, lines 98--230 and 245--267), which copies the buffer file through a view into the
  destination. The source file and its attributes are those of \<open>BBV_Xattr\<close>; how many bytes
  each \<open>read\<close> delivers, the decoding of packed types and the operations on the
  destination are parameters. The outcome carries the trace of the resources taken and released and of the
  data written.
\<close>

section \<open>What execute relies on\<close>

datatype event =
    Src_open | Src_close | Et_alloc | Dt_alloc | Buf_alloc | Buf_free
  | Dst_open | Dst_view "64 word" mpi_type mpi_type | Dst_write string | Dst_close

text \<open>
  \<open>read_len pos n\<close> is what the system grants to a read of \<open>n\<close> bytes at \<open>pos\<close>, \<open>None\<close> an
  error; a read never goes beyond the end of the file.
\<close>

record 'w exec_env =
  src_open_ok :: bool
  read_len :: "nat \<Rightarrow> nat \<Rightarrow> nat option"
  unpack :: "string \<Rightarrow> mpi_type option"
  etype_size_of :: "mpi_type \<Rightarrow> rc \<times> 64 word"
  malloc_ok :: bool
  dst_open :: "string \<Rightarrow> 'w \<Rightarrow> rc \<times> 'w"
  dst_set_view :: "64 word \<Rightarrow> mpi_type \<Rightarrow> mpi_type \<Rightarrow> 'w \<Rightarrow> rc \<times> 'w"
  dst_write :: "string \<Rightarrow> mpi_type \<Rightarrow> 'w \<Rightarrow> rc \<times> 'w"
  dst_close :: "'w \<Rightarrow> 'w"

section \<open>The program\<close>

definition sys_read :: "'w exec_env \<Rightarrow> string \<Rightarrow> nat \<Rightarrow> nat \<Rightarrow> string option" where
  "sys_read env file pos n = map_option (\<lambda>k. take (min k n) (drop pos file)) (read_len env pos n)"

lemma sys_read_progress:
  assumes "sys_read env file pos n = Some buf" "buf \<noteq> []"
  shows "length file - (pos + length buf) < length file - pos"
proof -
  obtain k where b: "buf = take (min k n) (drop pos file)" using assms(1) by (auto simp: sys_read_def)
  have "pos < length file" using b assms(2) by (cases "pos < length file") auto
  moreover have "0 < length buf" using assms(2) by simp
  ultimately show ?thesis by linarith
qed

text \<open>
  Lines 193--215: read a buffer, cut it to whole elements, write it. The result says whether the
  loop ended at the end of the file.
\<close>

function copy_loop ::
  "'w exec_env \<Rightarrow> mpi_type \<Rightarrow> nat \<Rightarrow> nat \<Rightarrow> string \<Rightarrow> nat \<Rightarrow> 'w \<Rightarrow> bool \<times> event list \<times> 'w" where
  "copy_loop env etype es buf_size file pos w =
     (case sys_read env file pos buf_size of
        None \<Rightarrow> (False, [], w)
      | Some buf \<Rightarrow>
          if buf = [] then (True, [], w)
          else
            (let rsize = length buf - length buf mod es in
             if rsize = 0 then copy_loop env etype es buf_size file (pos + length buf) w
             else
               (let (ret, w1) = dst_write env (take rsize buf) etype w in
                if ret \<noteq> OMPI_SUCCESS then (False, [Dst_write (take rsize buf)], w1)
                else
                  (let (ok, tr, w2) = copy_loop env etype es buf_size file (pos + length buf) w1
                   in (ok, Dst_write (take rsize buf) # tr, w2)))))"
  by pat_completeness auto
termination
  by (relation "measure (\<lambda>(env, etype, es, buf_size, file, pos, w). length file - pos)")
     (auto dest: sys_read_progress)

declare copy_loop.simps [simp del]

definition written :: "event list \<Rightarrow> string" where
  "written tr = concat (List.map_filter (\<lambda>e. case e of Dst_write d \<Rightarrow> Some d | _ \<Rightarrow> None) tr)"

text \<open>Lines 181--217, after the buffer is allocated: open, set the view, copy.\<close>

definition transfer ::
  "'w exec_env \<Rightarrow> string \<Rightarrow> view_desc \<Rightarrow> mpi_type \<Rightarrow> mpi_type \<Rightarrow> nat \<Rightarrow> nat \<Rightarrow> string \<Rightarrow> 'w \<Rightarrow> bool \<times> event list \<times> 'w" where
  "transfer env dst v etype dtype es buf_size file w =
     (let (ret, w1) = dst_open env dst w in
      if ret \<noteq> OMPI_SUCCESS then (False, [], w1)
      else
        (let (ret, w2) = dst_set_view env (saved_disp v) etype dtype w1 in
         if ret \<noteq> OMPI_SUCCESS then (False, [Dst_open, Dst_view (saved_disp v) etype dtype, Dst_close], dst_close env w2)
         else
           (let (ok, tr, w3) = copy_loop env etype es buf_size file 0 w2
            in (ok, [Dst_open, Dst_view (saved_disp v) etype dtype] @ tr @ [Dst_close], dst_close env w3))))"

text \<open>Lines 155--170: the two types and the size of the element type, or the jump to \<open>err_close\<close>.\<close>

definition decode_view :: "'w exec_env \<Rightarrow> view_desc \<Rightarrow> (mpi_type \<times> mpi_type \<times> 64 word) option" where
  "decode_view env v = do {
     etype \<leftarrow> unpack env (saved_et_buf v);
     dtype \<leftarrow> unpack env (saved_dt_buf v);
     let (ret, es) = etype_size_of env etype;
     (if ret \<noteq> OMPI_SUCCESS then None else Some (etype, dtype, es)) }"

text \<open>
  Lines 172--173: the buffer holds a whole number of elements, at least \<open>TARGET_BUFFER_SIZE\<close>
  bytes; an element of size 0 is a division by zero.
\<close>

definition buffer_size :: "64 word \<Rightarrow> 64 word option" where
  "buffer_size es =
     (if es = 0 then None else Some ((of_nat TARGET_BUFFER_SIZE + es - 1) div es * es))"

text \<open>\<open>execute\<close> as a whole: the outcome 0 or -1.\<close>

definition execute :: "'w exec_env \<Rightarrow> lfile \<Rightarrow> string \<Rightarrow> 'w \<Rightarrow> (int \<times> event list \<times> 'w) option" where
  "execute env src dst w =
     (if \<not> src_open_ok env then Some (-1, [], w)
      else do {
        let opened = [Src_open, Et_alloc] @
          (if getxattr (attrs src) BBVIEW_ATTR_ETYPE MAX_XATTR_VALUE_SIZE = None then [] else [Dt_alloc]);
        loaded \<leftarrow> load_view (attrs src);
        (case loaded of
           Inl _ \<Rightarrow> Some (-1, opened @ [Src_close], w)
         | Inr v \<Rightarrow>
             (case decode_view env v of
                None \<Rightarrow> Some (-1, opened @ [Src_close], w)
              | Some (etype, dtype, es) \<Rightarrow> do {
                  buf_size \<leftarrow> buffer_size es;
                  (if \<not> malloc_ok env then Some (-1, opened @ [Src_close], w)
                   else
                     (let (ok, tr, w') = transfer env dst v etype dtype (unat es) (unat buf_size) (content src) w
                      in Some (if ok then 0 else -1, opened @ [Buf_alloc] @ tr @ [Buf_free, Src_close], w'))) })) })"

text \<open>
  Lines 245--267: the destination comes from the attribute, and must exist. A job whose
  destination is missing is dropped without a trace.
\<close>

definition worker_job ::
  "'w exec_env \<Rightarrow> (string \<Rightarrow> bool) \<Rightarrow> fs \<Rightarrow> string \<Rightarrow> 'w \<Rightarrow> (int option \<times> event list \<times> 'w) option" where
  "worker_job env exists m path w =
     (case m path of
        None \<Rightarrow> Some (None, [], w)
      | Some src \<Rightarrow>
          (case getxattr (attrs src) BBVIEW_ATTR_DEST_PATH 4095 of
             None \<Rightarrow> Some (None, [], w)
           | Some xl \<Rightarrow>
               (let dst = c_string xl in
                if \<not> exists dst then Some (None, [], w)
                else do {
                  (ret, tr, w') \<leftarrow> execute env src dst w;
                  Some (Some ret, tr, w') })))"

section \<open>Resources\<close>

text \<open>
  Each counter is what is taken and not yet given back. The two packed descriptions are never
  freed.
\<close>

definition balance :: "event \<Rightarrow> event \<Rightarrow> event list \<Rightarrow> int" where
  "balance take_ev give_ev tr = int (count_list tr take_ev) - int (count_list tr give_ev)"

lemma balance_simps [simp]:
  "balance a b [] = 0" "balance a b (t @ u) = balance a b t + balance a b u"
  "balance a b (e # t) = (if e = a then 1 else 0) - (if e = b then 1 else 0) + balance a b t"
  by (simp_all add: balance_def)

definition only_writes :: "event list \<Rightarrow> bool" where
  "only_writes tr = list_all (\<lambda>e. case e of Dst_write _ \<Rightarrow> True | _ \<Rightarrow> False) tr"

lemma copy_loop_only_writes: "copy_loop env etype es n f pos w = (ok, tr, w') \<Longrightarrow> only_writes tr"
proof (induction env etype es n f pos w arbitrary: ok tr w' rule: copy_loop.induct)
  case (1 env etype es n f pos w)
  show ?case
  proof (cases "sys_read env f pos n")
    case None
    then show ?thesis using "1.prems" by (simp add: copy_loop.simps only_writes_def)
  next
    case (Some buf)
    let ?r = "length buf - length buf mod es"
    consider "buf = []" | "buf \<noteq> []" "?r = 0" | "buf \<noteq> []" "?r \<noteq> 0" by blast
    then show ?thesis
    proof cases
      case 1
      then show ?thesis using "1.prems" Some by (simp add: copy_loop.simps only_writes_def)
    next
      case 2
      then have "copy_loop env etype es n f (pos + length buf) w = (ok, tr, w')"
        using "1.prems" Some by (subst (asm) copy_loop.simps) simp
      then show ?thesis using "1.IH"(1) [OF Some 2(1) refl 2(2)] by blast
    next
      case 3
      obtain ret w1 where wr: "dst_write env (take ?r buf) etype w = (ret, w1)" by (rule prod.exhaust)
      show ?thesis
      proof (cases "ret = OMPI_SUCCESS")
        case False
        then show ?thesis using "1.prems" Some 3 wr
          by (subst (asm) copy_loop.simps) (auto simp: only_writes_def Let_def)
      next
        case True
        obtain ok2 tr2 w2 where rec: "copy_loop env etype es n f (pos + length buf) w1 = (ok2, tr2, w2)"
          using prod_cases3 by blast
        have "only_writes tr2" using "1.IH"(2) [OF Some 3(1) refl 3(2) wr [symmetric] refl _ rec] True by simp
        moreover have "tr = Dst_write (take ?r buf) # tr2"
          using "1.prems" Some 3 wr rec True by (subst (asm) copy_loop.simps) (simp add: Let_def)
        ultimately show ?thesis by (simp add: only_writes_def)
      qed
    qed
  qed
qed

lemma only_writes_balance:
  "only_writes tr \<Longrightarrow> \<forall>d. a \<noteq> Dst_write d \<and> b \<noteq> Dst_write d \<Longrightarrow> balance a b tr = 0"
  by (induction tr) (auto simp: only_writes_def split: event.splits)

lemma transfer_balance:
  assumes "transfer env dst v etype dtype es n f w = (ok, tr, w')"
  shows "balance Dst_open Dst_close tr = 0 \<and> balance Buf_alloc Buf_free tr = 0 \<and> balance Src_open Src_close tr = 0 \<and>
    count_list tr Src_close = 0 \<and> count_list tr Src_open = 0"
proof -
  obtain r1 w1 where o: "dst_open env dst w = (r1, w1)" by (rule prod.exhaust)
  obtain r2 w2 where sv: "dst_set_view env (saved_disp v) etype dtype w1 = (r2, w2)" by (rule prod.exhaust)
  obtain ok3 tr3 w3 where c: "copy_loop env etype es n f 0 w2 = (ok3, tr3, w3)" using prod_cases3 by blast
  have ow: "only_writes tr3" by (rule copy_loop_only_writes [OF c])
  then have "balance Dst_open Dst_close tr3 = 0" "balance Buf_alloc Buf_free tr3 = 0" "balance Src_open Src_close tr3 = 0"
    by (auto intro!: only_writes_balance)
  moreover have "count_list tr3 Src_close = 0" "count_list tr3 Src_open = 0"
    using ow by (auto simp: only_writes_def list_all_iff count_list_0_iff)
  ultimately show ?thesis
    using assms o sv c by (auto simp: transfer_def Let_def split: if_splits)
qed

lemma execute_cases:
  assumes "execute env src dst w = Some (ret, tr, w')"
  obtains (unopened) "tr = []" "ret = -1" "w' = w"
  | (early) opened where "set opened \<subseteq> {Src_open, Et_alloc, Dt_alloc}" "count_list opened Src_open = 1" "tr = opened @ [Src_close]"
      "ret = -1" "w' = w"
  | (ran) opened v etype dtype es n ok t where "set opened \<subseteq> {Src_open, Et_alloc, Dt_alloc}" "count_list opened Src_open = 1"
      "transfer env dst v etype dtype es n (content src) w = (ok, t, w')"
      "tr = opened @ [Buf_alloc] @ t @ [Buf_free, Src_close]" "ret = (if ok then 0 else -1)"
proof -
  define opened where "opened = [Src_open, Et_alloc] @
          (if getxattr (attrs src) BBVIEW_ATTR_ETYPE MAX_XATTR_VALUE_SIZE = None then [] else [Dt_alloc])"
  have o: "set opened \<subseteq> {Src_open, Et_alloc, Dt_alloc}" "count_list opened Src_open = 1"
    by (auto simp: opened_def)
  show ?thesis
  proof (cases "src_open_ok env")
    case False
    then show ?thesis using assms unopened by (simp add: execute_def)
  next
    case True
    note call = assms [unfolded execute_def opened_def [symmetric] Let_def]
    obtain loaded where l: "load_view (attrs src) = Some loaded"
      using call True by (cases "load_view (attrs src)") simp_all
    show ?thesis
    proof (cases "\<exists>v etype dtype es. loaded = Inr v \<and> decode_view env v = Some (etype, dtype, es) \<and> malloc_ok env")
      case False
      then have "tr = opened @ [Src_close] \<and> ret = -1 \<and> w' = w"
        using call True l by (cases loaded) (auto split: option.splits simp: bind_eq_Some_conv)
      then show ?thesis using early [OF o] by blast
    next
      case ok: True
      then obtain v etype dtype es where d: "loaded = Inr v" "decode_view env v = Some (etype, dtype, es)" "malloc_ok env"
        by blast
      then obtain n where n: "buffer_size es = Some n" using call True l by (cases "buffer_size es") simp_all
      obtain b t w2 where t: "transfer env dst v etype dtype (unat es) (unat n) (content src) w = (b, t, w2)"
        using prod_cases3 by blast
      have "tr = opened @ [Buf_alloc] @ t @ [Buf_free, Src_close] \<and> ret = (if b then 0 else -1) \<and> w' = w2"
        using call True l d n t by auto
      then show ?thesis using ran [OF o] t by blast
    qed
  qed
qed

lemma opened_counts:
  assumes "set opened \<subseteq> {Src_open, Et_alloc, Dt_alloc}"
  shows "count_list opened Src_close = 0" "count_list opened Buf_alloc = 0" "count_list opened Buf_free = 0"
    "count_list opened Dst_open = 0" "count_list opened Dst_close = 0"
  using assms by (auto simp: count_list_0_iff)

section \<open>The copy\<close>

text \<open>
  Reads that deliver whole elements: every read that is not the last one returns a positive
  multiple of the element size.
\<close>

definition aligned_reads :: "'w exec_env \<Rightarrow> nat \<Rightarrow> nat \<Rightarrow> nat \<Rightarrow> bool" where
  "aligned_reads env es n len \<longleftrightarrow>
     (\<forall>pos < len. \<exists>k. read_len env pos n = Some k \<and> 0 < min k n \<and>
        (len \<le> pos + min k n \<or> es dvd min k n))"

text \<open>The whole elements of a file from a position on: those of the first read, then the rest.\<close>

lemma whole_elements_split:
  assumes "0 < es" and buf: "buf = take m (drop pos f)" and le: "pos + length buf \<le> length f"
    and last: "pos + length buf = length f \<or> es dvd length buf"
  shows "take ((length f - pos) div es * es) (drop pos f) =
    take (length buf - length buf mod es) buf @
    take ((length f - (pos + length buf)) div es * es) (drop (pos + length buf) f)"
proof (cases "es dvd length buf")
  case True
  have tb: "take (length buf) (drop pos f) = buf" by (auto simp: buf min_def)
  have "length f - pos = length buf + (length f - (pos + length buf))" using le by simp
  then have "(length f - pos) div es * es = length buf + (length f - (pos + length buf)) div es * es"
    using True assms(1) by (metis div_plus_div_distrib_dvd_left distrib_right dvd_div_mult_self)
  then have "take ((length f - pos) div es * es) (drop pos f) =
      take (length buf) (drop pos f) @ take ((length f - (pos + length buf)) div es * es) (drop (length buf) (drop pos f))"
    by (simp only: take_add)
  moreover have "take (length buf - length buf mod es) buf = buf" using True by auto
  ultimately show ?thesis unfolding tb by (simp only: drop_drop add.commute)
next
  case False
  then have end_: "pos + length buf = length f" using last by blast
  then have "length buf = length (drop pos f)" by simp
  then have "buf = drop pos f" by (metis buf length_take min.absorb_iff2 take_all_iff min_def)
  then show ?thesis using end_ by (simp add: minus_mod_eq_div_mult)
qed

lemma copy_loop_complete:
  assumes "0 < es" "aligned_reads env es n (length f)" "read_len env (length f) n \<noteq> None"
    and "\<And>d w. fst (dst_write env d etype w) = OMPI_SUCCESS"
  shows "pos \<le> length f \<Longrightarrow> \<exists>tr w'. copy_loop env etype es n f pos w = (True, tr, w') \<and>
    written tr = take ((length f - pos) div es * es) (drop pos f) \<and>
    (\<forall>d. Dst_write d \<in> set tr \<longrightarrow> es dvd length d \<and> length d \<le> n)"
proof (induction "length f - pos" arbitrary: pos w rule: less_induct)
  case less
  show ?case
  proof (cases "pos = length f")
    case True
    then show ?thesis using assms(3) by (subst copy_loop.simps) (auto simp: sys_read_def written_def List.map_filter_def)
  next
    case False
    then have pos: "pos < length f" using less.prems by simp
    then obtain k where k: "read_len env pos n = Some k" "0 < min k n"
        "length f \<le> pos + min k n \<or> es dvd min k n"
      using assms(2) by (auto simp: aligned_reads_def)
    define buf where "buf = take (min k n) (drop pos f)"
    have rd: "sys_read env f pos n = Some buf" using k(1) by (simp add: sys_read_def buf_def)
    have ne: "buf \<noteq> []" using k(2) pos by (auto simp: buf_def)
    have le: "pos + length buf \<le> length f" "length buf \<le> n" using pos by (auto simp: buf_def)
    have last: "pos + length buf = length f \<or> es dvd length buf"
      using k(3) pos by (auto simp: buf_def min_def)
    let ?r = "length buf - length buf mod es"
    have r: "?r = length buf div es * es" by (simp add: minus_mod_eq_div_mult)
    have dec: "length f - (pos + length buf) < length f - pos" by (rule sys_read_progress [OF rd ne])
    have split: "take ((length f - pos) div es * es) (drop pos f) =
        take ?r buf @ take ((length f - (pos + length buf)) div es * es) (drop (pos + length buf) f)"
      by (rule whole_elements_split [OF assms(1) buf_def le(1) last])
    have wr: "written (Dst_write d # t) = d @ written t" for d t by (simp add: written_def List.map_filter_def)
    show ?thesis
    proof (cases "?r = 0")
      case True
      obtain tr w' where "copy_loop env etype es n f (pos + length buf) w = (True, tr, w')"
          "written tr = take ((length f - (pos + length buf)) div es * es) (drop (pos + length buf) f)"
          "\<forall>d. Dst_write d \<in> set tr \<longrightarrow> es dvd length d \<and> length d \<le> n"
        using less.hyps [OF dec le(1)] by blast
      moreover from this have "copy_loop env etype es n f pos w = (True, tr, w')"
        using rd ne True by (subst copy_loop.simps) simp
      ultimately show ?thesis using split True by simp
    next
      case False
      obtain ret w1 where w1: "dst_write env (take ?r buf) etype w = (ret, w1)" by (rule prod.exhaust)
      have ok: "ret = OMPI_SUCCESS" using assms(4) [of "take ?r buf" w] w1 by simp
      obtain tr w' where t: "copy_loop env etype es n f (pos + length buf) w1 = (True, tr, w')"
          "written tr = take ((length f - (pos + length buf)) div es * es) (drop (pos + length buf) f)"
          "\<forall>d. Dst_write d \<in> set tr \<longrightarrow> es dvd length d \<and> length d \<le> n"
        using less.hyps [OF dec le(1)] by blast
      have "copy_loop env etype es n f pos w = (True, Dst_write (take ?r buf) # tr, w')"
        using rd ne False w1 ok t(1) by (subst copy_loop.simps) (simp add: Let_def)
      moreover have "length (take ?r buf) = ?r" by simp
      then have "es dvd length (take ?r buf)" "length (take ?r buf) \<le> n"
        using r le(2) by (metis dvd_triv_right, linarith)
      ultimately show ?thesis using split t(2,3) by (auto simp: wr)
    qed
  qed
qed

lemma execute_writes:
  assumes "src_open_ok env" "malloc_ok env" "load_view (attrs src) = Some (Inr v)"
    and "decode_view env v = Some (etype, dtype, es)" "buffer_size es = Some n"
    and "\<And>d w. fst (dst_open env d w) = OMPI_SUCCESS" "\<And>x e d w. fst (dst_set_view env x e d w) = OMPI_SUCCESS"
    and writes: "\<And>d e w. fst (dst_write env d e w) = OMPI_SUCCESS"
    and reads: "aligned_reads env (unat es) (unat n) (length (content src))"
      "read_len env (length (content src)) (unat n) \<noteq> None"
  shows "\<exists>tr w'. execute env src dst w = Some (0, tr, w') \<and> Dst_view (saved_disp v) etype dtype \<in> set tr \<and>
    written tr = take (length (content src) div unat es * unat es) (content src) \<and>
    (\<forall>d. Dst_write d \<in> set tr \<longrightarrow> unat es dvd length d \<and> length d \<le> unat n)"
proof -
  have es: "es \<noteq> 0" using assms(5) by (auto simp: buffer_size_def)
  then have es': "0 < unat es" by (simp add: unat_gt_0)
  obtain r1 w1 where o: "dst_open env dst w = (r1, w1)" by (rule prod.exhaust)
  obtain r2 w2 where sv: "dst_set_view env (saved_disp v) etype dtype w1 = (r2, w2)" by (rule prod.exhaust)
  have r: "r1 = OMPI_SUCCESS" "r2 = OMPI_SUCCESS" using assms(6) [of dst w] assms(7) [of "saved_disp v" etype dtype w1] o sv by simp_all
  obtain tr w3 where c: "copy_loop env etype (unat es) (unat n) (content src) 0 w2 = (True, tr, w3)"
      "written tr = take (length (content src) div unat es * unat es) (content src)"
      "\<forall>d. Dst_write d \<in> set tr \<longrightarrow> unat es dvd length d \<and> length d \<le> unat n"
    using copy_loop_complete [OF es' reads writes, where pos = 0 and w = w2, of etype] unfolding diff_zero drop_0 by blast
  define opened where "opened = [Src_open, Et_alloc] @
          (if getxattr (attrs src) BBVIEW_ATTR_ETYPE MAX_XATTR_VALUE_SIZE = None then [] else [Dt_alloc])"
  define full where "full = opened @ [Buf_alloc, Dst_open, Dst_view (saved_disp v) etype dtype] @ tr @
      [Dst_close, Buf_free, Src_close]"
  have "execute env src dst w = Some (0, full, dst_close env w3)"
    using assms(1-5) o sv r c(1) by (simp add: execute_def opened_def full_def transfer_def)
  moreover have "written full = written tr"
    by (auto simp: written_def opened_def full_def List.map_filter_def)
  moreover have "Dst_view (saved_disp v) etype dtype \<in> set full" "\<forall>d. Dst_write d \<in> set full \<longrightarrow> Dst_write d \<in> set tr"
    by (auto simp: opened_def full_def)
  ultimately show ?thesis using c(2,3) by metis
qed

section \<open>Properties\<close>

text \<open>C7: When opening, decoding and writing succeed and every read but the last delivers
  whole elements, \<open>execute\<close> returns 0 and the data written through the saved view, in order, is the
  buffer file up to its last whole element, in pieces of whole elements that fit the buffer.\<close>

theorem execute_copies:
  assumes "src_open_ok env" "malloc_ok env" "load_view (attrs src) = Some (Inr v)"
    and "decode_view env v = Some (etype, dtype, es)" "buffer_size es = Some n"
    and "\<And>d w. fst (dst_open env d w) = OMPI_SUCCESS" "\<And>x e d w. fst (dst_set_view env x e d w) = OMPI_SUCCESS"
    and "\<And>d e w. fst (dst_write env d e w) = OMPI_SUCCESS"
    and "aligned_reads env (unat es) (unat n) (length (content src))"
      "read_len env (length (content src)) (unat n) \<noteq> None"
  shows "\<exists>tr w'. execute env src dst w = Some (0, tr, w') \<and> Dst_view (saved_disp v) etype dtype \<in> set tr \<and>
    written tr = take (length (content src) div unat es * unat es) (content src) \<and>
    (\<forall>d. Dst_write d \<in> set tr \<longrightarrow> unat es dvd length d \<and> length d \<le> unat n)"
  by (rule execute_writes [OF assms])

definition demo_src :: lfile where
  "demo_src = \<lparr>content = ''abcdefghijkl'',
     attrs = [BBVIEW_ATTR_ETYPE \<mapsto> ''et'', chunk_name 0 \<mapsto> ''dt'', BBVIEW_ATTR_DISP \<mapsto> disp_bytes 3]\<rparr>"

definition demo_exec :: "unit exec_env" where
  "demo_exec = \<lparr>src_open_ok = True, read_len = (\<lambda>_ n. Some n), unpack = (\<lambda>_. Some mpi_int),
     etype_size_of = (\<lambda>_. (OMPI_SUCCESS, 4)), malloc_ok = True, dst_open = (\<lambda>_ w. (OMPI_SUCCESS, w)),
     dst_set_view = (\<lambda>_ _ _ w. (OMPI_SUCCESS, w)), dst_write = (\<lambda>_ _ w. (OMPI_SUCCESS, w)), dst_close = (\<lambda>w. w)\<rparr>"

lemma demo_src_view:
  "load_view (attrs demo_src) = Some (Inr \<lparr>saved_disp = 3, saved_dt_buf = ''dt'', saved_et_buf = ''et''\<rparr>)"
proof -
  have names: "chunk_name 0 = ''user.bbview.datatype0''" "chunk_name (Suc 0) = ''user.bbview.datatype1''"
    by code_simp+
  show ?thesis
    by (simp add: demo_src_def load_view_def getxattr_def names attr_names MAX_XATTR_VALUE_SIZE_def
        read_chunks.simps TARGET_BUFFER_SIZE_def length_disp_bytes disp_roundtrip)
qed

lemma demo_decode: "decode_view (demo_exec\<lparr>read_len := r\<rparr>) v = Some (mpi_int, mpi_int, 4)"
  "decode_view demo_exec v = Some (mpi_int, mpi_int, 4)" "buffer_size 4 = Some 4194304"
  by (simp_all add: decode_view_def demo_exec_def buffer_size_def TARGET_BUFFER_SIZE_def)

theorem execute_copies_witness:
  "\<exists>tr w'. execute demo_exec demo_src ''/pfs/out'' () = Some (0, tr, w') \<and> written tr = ''abcdefghijkl''"
proof -
  have "aligned_reads demo_exec (unat (4::64 word)) (unat (4194304::64 word)) (length (content demo_src))"
    "read_len demo_exec (length (content demo_src)) (unat (4194304::64 word)) \<noteq> None"
    by (auto simp: aligned_reads_def demo_exec_def demo_src_def)
  from execute_copies [OF _ _ demo_src_view demo_decode(2,3) _ _ _ this]
  show ?thesis by (simp add: demo_exec_def) (fastforce simp: demo_src_def)
qed

text \<open>A read that ends inside an element loses data: the excess bytes are dropped although
  the file position has moved past them, and everything behind them lands at the wrong place, with
  the result 0.\<close>

theorem execute_short_read:
  "\<exists>tr. execute (demo_exec\<lparr>read_len := (\<lambda>pos n. Some (if pos = 0 then 6 else n))\<rparr>) demo_src ''/pfs/out'' () =
      Some (0, tr, ()) \<and> written tr = ''abcdghij''"
proof -
  let ?env = "demo_exec\<lparr>read_len := (\<lambda>pos n. Some (if pos = 0 then 6 else n))\<rparr>"
  have "copy_loop ?env mpi_int 4 4194304 ''abcdefghijkl'' 0 () = (True, [Dst_write ''abcd'', Dst_write ''ghij''], ())"
    by (simp add: copy_loop.simps sys_read_def demo_exec_def)
  then have "transfer ?env ''/pfs/out'' \<lparr>saved_disp = 3, saved_dt_buf = ''dt'', saved_et_buf = ''et''\<rparr> mpi_int mpi_int 4
      4194304 ''abcdefghijkl'' () = (True, [Dst_open, Dst_view 3 mpi_int mpi_int, Dst_write ''abcd'', Dst_write ''ghij'', Dst_close], ())"
    by (simp add: transfer_def demo_exec_def)
  moreover have "content demo_src = ''abcdefghijkl''" "src_open_ok ?env" "malloc_ok ?env"
    by (simp_all add: demo_src_def demo_exec_def)
  ultimately show ?thesis
    by (simp add: execute_def demo_src_view demo_decode written_def List.map_filter_def)
qed

text \<open>C22: On every path the source descriptor, the copy buffer and the destination are given back
  as often as they are taken, the source last, and the outcome is 0 or -1. The buffer of the packed
  element type is never freed.\<close>

theorem execute_resources:
  assumes "execute env src dst w = Some (ret, tr, w')"
  shows "balance Src_open Src_close tr = 0 \<and> balance Buf_alloc Buf_free tr = 0 \<and> balance Dst_open Dst_close tr = 0 \<and>
    (ret = 0 \<or> ret = -1) \<and> (tr \<noteq> [] \<longrightarrow> last tr = Src_close) \<and> (ret = 0 \<longrightarrow> Buf_alloc \<in> set tr)"
  using assms
proof (cases rule: execute_cases)
  case (early opened)
  then show ?thesis using opened_counts [OF early(1)] by (auto simp: balance_def)
next
  case (ran opened v etype dtype es n ok t)
  show ?thesis using ran opened_counts [OF ran(1)] transfer_balance [OF ran(3)] by (auto simp: balance_def)
qed simp

theorem execute_resources_witness:
  "\<exists>ret tr w'. execute demo_exec (demo_src\<lparr>attrs := Map.empty\<rparr>) ''/pfs/out'' () = Some (ret, tr, w') \<and>
    balance Src_open Src_close tr = 0"
proof -
  have "execute demo_exec (demo_src\<lparr>attrs := Map.empty\<rparr>) ''/pfs/out'' () = Some (-1, [Src_open, Et_alloc, Src_close], ())"
    by (simp add: execute_def demo_exec_def load_view_def getxattr_def)
  from execute_resources [OF this] show ?thesis
    by (simp add: execute_def demo_exec_def load_view_def getxattr_def)
qed

end
