(* ===== verification/BBV_Handoff.thy ===== *)
theory BBV_Handoff
  imports BBV_Module BBV_Daemon BBV_Execute
begin

text \<open>
  The way of a flushed view through the whole system: \<open>mca_io_bbview_file_flush\<close> writes the
  attributes and sends the name of the buffer file, \<open>listener_loop\<close> reads it, \<open>enqueue\<close>
  stores it, and a worker decodes the attributes and copies the data to the destination.
\<close>

section \<open>The name survives the way to the worker\<close>

lemma set_dash_from: "set (dash_from k s) \<subseteq> insert (CHR ''-'') (set s)"
  by (auto simp: dash_from_def dest: in_set_takeD in_set_dropD)

lemma show_int_chars: "c \<in> set (show_int i) \<Longrightarrow> c = CHR ''-'' \<or> (48 \<le> (of_char c :: nat) \<and> (of_char c :: nat) \<le> 57)"
  by (auto simp: show_int_def dest: show_nat_digits split: if_splits)

lemma local_filename_chars:
  assumes "c \<notin> set t" "c \<notin> set f" "c \<noteq> CHR ''-''" "c \<noteq> CHR ''/''" "(of_char c :: nat) < 48"
  shows "c \<notin> set (local_filename t f r v)"
proof -
  have "c \<notin> set (show_nat r)" "c \<notin> set (show_int (sint v))"
    using assms(3,5) show_nat_no_char [of c r] show_int_chars [of c "sint v"] by auto
  then have "c \<notin> set (t @ ''/'' @ f @ ''-'' @ show_nat r @ ''-'' @ show_int (sint v))" (is "c \<notin> set ?full")
    using assms(1-4) by simp
  then have "c \<notin> insert (CHR ''-'') (set (fit PATH_MAX ?full))"
    using assms(3) unfolding fit_def by (metis in_set_takeD insertE)
  then show ?thesis
    unfolding local_filename_def using set_dash_from [of "length t + 2" "fit PATH_MAX ?full"] by blast
qed

lemma path_not_terminate: "\<not> strncmp_eq (CHR ''/'' # n) ''terminate'' 9"
  by (simp add: strncmp_eq_def)

lemma listener_accepts:
  assumes "name = CHR ''/'' # n" "CHR 0x00 \<notin> set name" "CHR 0x0A \<notin> set name" "length name < PATH_MAX"
  shows "listener_message name = Job name"
proof -
  have "take (PATH_MAX + 15) name = name" using assms(4) by simp
  moreover have "takeWhile (\<lambda>c. c \<noteq> CHR 0x0A) name = name" using assms(3) by (auto simp: takeWhile_eq_all_conv)
  moreover have "\<not> strncmp_eq name ''terminate'' 9" using assms(1) path_not_terminate by blast
  ultimately show ?thesis
    using assms(1) c_string_id [OF assms(2)] by (simp only: listener_message_def Let_def) simp
qed

text \<open>A directory name that the protocol can carry.\<close>

definition plain_path :: "string \<Rightarrow> bool" where
  "plain_path s \<longleftrightarrow> CHR 0x00 \<notin> set s \<and> CHR 0x0A \<notin> set s"

lemma buffer_name_accepted:
  assumes "tmp_dir env = CHR ''/'' # t" "plain_path (tmp_dir env)" "plain_path (f_filename (hd_file s))"
  shows "listener_message (buffer_name env s v) = Job (buffer_name env s v)"
proof -
  obtain n where "buffer_name env s v = CHR ''/'' # n"
    using local_filename_head [of t] assms(1) by (metis buffer_name_def)
  moreover have "CHR 0x00 \<notin> set (buffer_name env s v)" "CHR 0x0A \<notin> set (buffer_name env s v)"
    using assms(2,3) unfolding buffer_name_def plain_path_def
    by (intro local_filename_chars; simp)+
  moreover have "length (buffer_name env s v) < PATH_MAX" by (simp add: buffer_name_def local_filename_length)
  ultimately show ?thesis by (rule listener_accepts)
qed

lemma buffer_name_queued:
  assumes "holds q xs"
  shows "\<exists>q'. enqueue True (buffer_name env s v) q = Some q' \<and> holds q' (xs @ [buffer_name env s v])"
  using enqueue_holds [OF assms, of "buffer_name env s v"]
  by (simp add: buffer_name_def local_filename_length fit_id)

section \<open>The description survives\<close>

text \<open>What \<open>flush\<close> needs for the daemon to get the whole description back.\<close>

definition desc_fits :: "view_desc \<Rightarrow> (string \<Rightarrow> string option) \<Rightarrow> bool" where
  "desc_fits desc get \<longleftrightarrow> saved_dt_buf desc \<noteq> [] \<and> length (saved_dt_buf desc) \<le> TARGET_BUFFER_SIZE \<and>
     length (saved_et_buf desc) \<le> MAX_XATTR_VALUE_SIZE \<and>
     (length (pieces (saved_dt_buf desc)) = 64 \<or> get (chunk_name (length (pieces (saved_dt_buf desc)))) = None)"

lemma flush_describes:
  assumes "mca_io_bbview_file_flush env s = Some (OMPI_SUCCESS, t)"
    and "data_of s = Some d" "state d = BBVIEW_STATE_ACTIVE" "desc_of d = Some desc"
    and name: "name = buffer_name env s (view_index d)"
    and fits: "desc_fits desc (attr_of name (files s))"
  shows "load_view (attr_of name (files t)) = Some (Inr desc) \<and>
    attr_of name (files t) BBVIEW_ATTR_DEST_PATH = realpath env s (ompio_filename (ompio_fh d))"
  using assms(1)
proof (cases rule: flush_cases)
  case (send data m)
  have eq: "data = d" using send(1) assms(2) by simp
  have "set_xattrs_for_bbview (setxattr (xattr_accepts env) name)
      (realpath env s (ompio_filename (ompio_fh d))) (saved_view_of d) (files s) = Some (True, m)"
    using send(3) unfolding eq name by simp
  moreover have "files t = m"
    using send(4) by (metis send_path_files snd_conv sys.select_convs(2) sys.surjective sys.update_convs(2))
  ultimately show ?thesis
    using local_file.set_then_load [of "xattr_accepts env" name] fits assms(4) by (simp add: desc_fits_def desc_of_def)
qed (use assms(2,3) in simp_all)

section \<open>Delivery\<close>

text \<open>
  What has to go well in the worker: the library decodes both types, the destination accepts what
  it gets, and the reads deliver whole elements.
\<close>

definition worker_ok ::
  "'w exec_env \<Rightarrow> view_desc \<Rightarrow> nat \<Rightarrow> mpi_type \<Rightarrow> mpi_type \<Rightarrow> 64 word \<Rightarrow> 64 word \<Rightarrow> bool" where
  "worker_ok env desc len etype dtype es n \<longleftrightarrow> src_open_ok env \<and> malloc_ok env \<and>
     decode_view env desc = Some (etype, dtype, es) \<and> buffer_size es = Some n \<and>
     (\<forall>d w. fst (dst_open env d w) = OMPI_SUCCESS) \<and> (\<forall>x e d w. fst (dst_set_view env x e d w) = OMPI_SUCCESS) \<and>
     (\<forall>d e w. fst (dst_write env d e w) = OMPI_SUCCESS) \<and>
     aligned_reads env (unat es) (unat n) len \<and> read_len env len (unat n) \<noteq> None"

lemma worker_delivers:
  assumes "worker_ok env desc (length (content f)) etype dtype es n" "m name = Some f"
    and "load_view (attr_of name m) = Some (Inr desc)" "attr_of name m BBVIEW_ATTR_DEST_PATH = Some dst"
    and "CHR 0x00 \<notin> set dst" "length dst \<le> 4095" "exists dst"
  shows "\<exists>tr w'. worker_job env exists m name w = Some (Some 0, tr, w') \<and> execute env f dst w = Some (0, tr, w') \<and>
    Dst_view (saved_disp desc) etype dtype \<in> set tr \<and>
    written tr = take (length (content f) div unat es * unat es) (content f)"
proof -
  have a: "attr_of name m = attrs f" using assms(2) by (simp add: attr_of_def fun_eq_iff)
  have "load_view (attrs f) = Some (Inr desc)" using assms(3) a by simp
  then obtain tr w' where e: "execute env f dst w = Some (0, tr, w')" "Dst_view (saved_disp desc) etype dtype \<in> set tr"
      "written tr = take (length (content f) div unat es * unat es) (content f)"
    using execute_writes [of env f desc etype dtype es n dst w] assms(1) unfolding worker_ok_def by blast
  have "getxattr (attrs f) BBVIEW_ATTR_DEST_PATH 4095 = Some dst" using assms(4,6) a by (simp add: getxattr_def)
  then have "worker_job env exists m name w = Some (Some 0, tr, w')"
    using assms(2,7) e(1) c_string_id [OF assms(5)] by (simp add: worker_job_def)
  then show ?thesis using e by blast
qed

section \<open>The threads get to the job\<close>

lemma accept_job:
  assumes "reachable nthreads ds" "listener ds = L_Accept" "mutex ds = None"
  shows "\<exists>u. dstep ds u \<and> accepted u = accepted ds @ [p] \<and> jobs u = jobs ds @ [p]"
proof (cases "W_Sleep \<in> set (pcs ds)")
  case True
  then obtain i where "i < length (pcs ds)" "pcs ds ! i = W_Sleep" by (auto simp: in_set_conv_nth)
  from dstep.enqueue_wake [OF assms(2,3) this, of p] show ?thesis by fastforce
next
  case False
  from dstep.enqueue_alone [OF assms(2,3) this, of p] show ?thesis by fastforce
qed

lemma job_gets_done:
  assumes "reachable nthreads ds" "0 < nthreads" "listener ds = L_Accept" "mutex ds = None"
  shows "\<exists>u v. dstep ds u \<and> accepted u = accepted ds @ [p] \<and> dstep\<^sup>*\<^sup>* u v \<and> p \<in> set (finished v)"
proof -
  obtain u where u: "dstep ds u" "accepted u = accepted ds @ [p]" using accept_job [OF assms(1,3,4)] by blast
  have "reachable nthreads u" by (rule reachable.step [OF assms(1) u(1)])
  then obtain v where v: "dstep\<^sup>*\<^sup>* u v" "accepted v = accepted u" "reachable nthreads v" "jobs v = []"
      "\<forall>q. W_Run q \<notin> set (pcs v)"
    using drains_aux [OF assms(2)] by blast
  have "mset (finished v) = mset (accepted v)"
    using reachable_inv [OF v(3)] running_none [of "pcs v"] v(4,5) by (simp add: daemon_inv_def)
  then have "p \<in> set (finished v)" using u(2) v(2) by (metis in_set_conv_decomp set_mset_mset)
  then show ?thesis using u v(1) by blast
qed

section \<open>An example\<close>

lemma demo_worker:
  "worker_ok demo_exec desc 8 mpi_int mpi_int 4 4194304"
  by (simp add: worker_ok_def demo_decode) (simp add: demo_exec_def aligned_reads_def)

section \<open>Properties\<close>

text \<open>C1: A flushed view reaches the destination. After a successful flush of an ACTIVE view, the
  message on the socket is the name of the buffer file, the listener takes it for a job with that very
  name, and the queue holds it whole behind the jobs that wait; the threads can accept it and run on to
  a state in which it is finished; the worker that gets it opens the
  destination that \<open>realpath\<close> gave, through the displacement and the types that the
  view was set with, and writes the contents of the buffer file, in order, up to the last whole
  element.\<close>

theorem flushed_view_delivered:
  assumes flush: "mca_io_bbview_file_flush env s = Some (OMPI_SUCCESS, t)"
    and d: "data_of s = Some d" "state d = BBVIEW_STATE_ACTIVE" "desc_of d = Some desc"
    and name: "name = buffer_name env s (view_index d)" "files s name = Some f"
    and paths: "tmp_dir env = CHR ''/'' # rest" "plain_path (tmp_dir env)" "plain_path (f_filename (hd_file s))"
    and fits: "desc_fits desc (attr_of name (files s))"
    and dst: "realpath env s (ompio_filename (ompio_fh d)) = Some dst" "CHR 0x00 \<notin> set dst" "length dst \<le> 4095" "exists dst"
    and worker: "worker_ok wenv desc (length (content f)) etype dtype es n"
    and queue: "holds q xs"
    and threads: "reachable nthreads ds" "0 < nthreads" "listener ds = L_Accept" "mutex ds = None"
  shows "sent t = sent s @ [name] \<and> listener_message name = Job name \<and>
    (\<exists>q'. enqueue True name q = Some q' \<and> holds q' (xs @ [name])) \<and>
    (\<exists>u v. dstep ds u \<and> accepted u = accepted ds @ [name] \<and> dstep\<^sup>*\<^sup>* u v \<and> name \<in> set (finished v)) \<and>
    (\<exists>f' tr w'. files t name = Some f' \<and> content f' = content f \<and>
       worker_job wenv exists (files t) name w = Some (Some 0, tr, w') \<and> execute wenv f' dst w = Some (0, tr, w') \<and>
       Dst_view (saved_disp desc) etype dtype \<in> set tr \<and>
       written tr = take (length (content f) div unat es * unat es) (content f))"
proof -
  have "contents (files t) name = contents (files s) name" by (simp add: flush_contents [OF flush])
  then obtain f' where f': "files t name = Some f'" "content f' = content f"
    using name(2) by (auto simp: contents_def)
  have v: "load_view (attr_of name (files t)) = Some (Inr desc)" "attr_of name (files t) BBVIEW_ATTR_DEST_PATH = Some dst"
    using flush_describes [OF flush d name(1) fits] dst(1) by simp_all
  have w: "worker_ok wenv desc (length (content f')) etype dtype es n" using worker f'(2) by simp
  show ?thesis
    using flush_sent [OF flush d(1,2)] buffer_name_accepted [OF paths, of "view_index d"]
      buffer_name_queued [OF queue, of env s "view_index d"] worker_delivers [where exists = exists and w = w, OF w f'(1) v dst(2-4)] f'
      job_gets_done [OF threads, of name]
    unfolding name(1) by metis
qed

theorem flushed_view_delivered_witness:
  "\<exists>t tr. mca_io_bbview_file_flush demo_env sending_sys = Some (OMPI_SUCCESS, t) \<and>
    worker_job demo_exec (\<lambda>p. p = ''/out'') (files t) (local_filename ''/scr'' ''out'' 0 1) () = Some (Some 0, tr, ()) \<and>
    Dst_view 3 mpi_int mpi_int \<in> set tr \<and> written tr = ''abcdefgh''"
proof -
  obtain t where t: "mca_io_bbview_file_flush demo_env sending_sys = Some (OMPI_SUCCESS, t)" using sending_flush by blast
  have p: "tmp_dir demo_env = ''/scr''" "plain_path (tmp_dir demo_env)" "plain_path (f_filename (hd_file sending_sys))"
    "realpath demo_env sending_sys (ompio_filename (ompio_fh sending_data)) = Some ''/out''"
    by (simp_all add: plain_path_def demo_env_def sending_sys_def put_data_def demo_sys_def sending_data_def demo_data_def demo_fh_def)
  have fits: "desc_fits \<lparr>saved_disp = 3, saved_dt_buf = ''dt'', saved_et_buf = ''et''\<rparr>
      (attr_of (local_filename ''/scr'' ''out'' 0 1) (files sending_sys))"
    using sending_facts(5)
    by (simp add: desc_fits_def attr_of_def sending_file_def TARGET_BUFFER_SIZE_def MAX_XATTR_VALUE_SIZE_def)
  have len: "length (content sending_file) = 8" by (simp add: sending_file_def)
  have w: "worker_ok demo_exec \<lparr>saved_disp = 3, saved_dt_buf = ''dt'', saved_et_buf = ''et''\<rparr>
      (length (content sending_file)) mpi_int mpi_int 4 4194304"
    unfolding len by (rule demo_worker)
  have th: "(0::nat) < 1" "listener (init_daemon 1) = L_Accept" "mutex (init_daemon 1) = None"
    by (simp_all add: init_daemon_def)
  have out: "CHR 0x00 \<notin> set ''/out''" "length ''/out'' \<le> 4095" "''/out'' = ''/out''" by simp_all
  have "take (length (content sending_file) div unat (4 :: 64 word) * unat (4 :: 64 word)) (content sending_file) = ''abcdefgh''"
    by (simp add: sending_file_def)
  then show ?thesis
    using flushed_view_delivered [where exists = "\<lambda>p. p = ''/out''" and w = "()",
        OF t sending_facts p(1-3) fits p(4) out w holds_empty reachable.init th] t
    by auto
qed

end
