(* ===== verification/BBV_Main.thy ===== *)
theory BBV_Main
  imports BBV_Daemon
begin

text \<open>
  The process around the threads of \<open>bbviewd\<close> (\<open>bbviewd.c\<close>, lines 273--296 and 348--443):
  the socket, the frameworks, the start and the end of the workers, and the client mode
  \<open>bbviewd wait\<close> that asks a running daemon to finish. The system calls and the MPI library are
  parameters; the outcome is the exit code with the trace of the calls made. The code is \<open>None\<close>
  when the last call of the trace never returns.
\<close>

section \<open>What main relies on\<close>

datatype main_event =
    Mpi_init | Framework_open nat | Log_open
  | Sock_unlink | Sock_open | Sock_bind | Sock_listen | Sock_close
  | Thread_create nat | Listener_loop | Thread_join nat | Mpi_finalize
  | Client_socket | Client_connect | Client_send string | Client_print string | Client_close

text \<open>
  What the one \<open>read\<close> of the client does, and how the threads end: \<open>threads_end n\<close> is a state of
  the step relation of \<open>BBV_Daemon\<close> for \<open>n\<close> workers that is late enough that every thread that
  ever ends has ended. A worker that is not in \<open>W_Done\<close> there, or a listener that is neither in
  \<open>L_Done\<close> nor in \<open>L_Failed\<close>, never ends, and a call that waits for it never returns.
\<close>

datatype client_read = Read_blocks | Read_failed | Read_bytes string

record main_env =
  framework_ok :: "nat \<Rightarrow> bool"
  sock_socket_ok :: bool
  sock_bind_ok :: bool
  sock_listen_ok :: bool
  arrays_ok :: bool
  thread_ok :: "nat \<Rightarrow> bool"
  client_socket_ok :: bool
  client_connect_ok :: bool
  client_reply :: client_read
  threads_end :: "nat \<Rightarrow> daemon"

section \<open>The program\<close>

definition create_socket :: "main_env \<Rightarrow> bool \<times> main_event list" where
  "create_socket env =
     (if \<not> sock_socket_ok env then (False, [Sock_unlink])
      else if \<not> sock_bind_ok env then (False, [Sock_unlink, Sock_open, Sock_close])
      else if \<not> sock_listen_ok env then (False, [Sock_unlink, Sock_open, Sock_bind, Sock_close])
      else (True, [Sock_unlink, Sock_open, Sock_bind, Sock_listen]))"

text \<open>
  \<open>atoi\<close>: white space, a sign, digits; a value outside of \<open>int\<close> is undefined. \<open>isspace\<close> in
  the C locale.
\<close>

definition is_space :: "char \<Rightarrow> bool" where
  "is_space c \<longleftrightarrow> (of_char c :: nat) = 32 \<or> (9 \<le> (of_char c :: nat) \<and> (of_char c :: nat) \<le> 13)"

definition is_digit :: "char \<Rightarrow> bool" where
  "is_digit c \<longleftrightarrow> 48 \<le> (of_char c :: nat) \<and> (of_char c :: nat) \<le> 57"

definition atoi :: "string \<Rightarrow> int option" where
  "atoi s =
     (let t = dropWhile is_space s;
          neg = (t \<noteq> [] \<and> hd t = CHR ''-'');
          u = (if t \<noteq> [] \<and> (hd t = CHR ''-'' \<or> hd t = CHR ''+'') then tl t else t);
          n = int (read_nat (takeWhile is_digit u))
      in i32 (if neg then - n else n))"

text \<open>Lines 424--430: the threads from number \<open>i\<close> on, until one cannot be created.\<close>

fun start_threads :: "main_env \<Rightarrow> nat \<Rightarrow> nat \<Rightarrow> bool \<times> main_event list" where
  "start_threads env i 0 = (True, [])"
| "start_threads env i (Suc k) =
     (if \<not> thread_ok env i then (False, [])
      else (let (ok, tr) = start_threads env (i + 1) k in (ok, Thread_create i # tr)))"

text \<open>Lines 387--406: the five frameworks in turn.\<close>

fun open_frameworks :: "main_env \<Rightarrow> nat \<Rightarrow> nat \<Rightarrow> bool \<times> main_event list" where
  "open_frameworks env i 0 = (True, [])"
| "open_frameworks env i (Suc k) =
     (if \<not> framework_ok env i then (False, [])
      else (let (ok, tr) = open_frameworks env (i + 1) k in (ok, Framework_open i # tr)))"

text \<open>Lines 357--384: the client, which takes at most 127 bytes of the answer.\<close>

definition client_wait :: "main_env \<Rightarrow> int option \<times> main_event list" where
  "client_wait env =
     (if \<not> client_socket_ok env then (Some 1, [])
      else if \<not> client_connect_ok env then (Some 1, [Client_socket])
      else
        (let tr = [Client_socket, Client_connect, Client_send (''terminate'' @ [CHR 0x0A])] in
         case client_reply env of
           Read_blocks \<Rightarrow> (None, tr)
         | Read_failed \<Rightarrow> (Some 0, tr @ [Client_close])
         | Read_bytes r \<Rightarrow>
             (Some 0, tr @ (if r = [] then [] else [Client_print (c_string (take 127 r))]) @ [Client_close])))"

text \<open>Lines 434--436: the joins, in order, up to the first that does not return.\<close>

fun join_threads :: "wpc list \<Rightarrow> nat \<Rightarrow> nat \<Rightarrow> bool \<times> main_event list" where
  "join_threads ps i 0 = (True, [])"
| "join_threads ps i (Suc k) =
     (if ps ! i \<noteq> W_Done then (False, [Thread_join i])
      else (let (ok, tr) = join_threads ps (i + 1) k in (ok, Thread_join i # tr)))"

text \<open>Lines 409--442. Without memory for the two arrays the first store is undefined.\<close>

definition run_daemon :: "main_env \<Rightarrow> string \<Rightarrow> (int option \<times> main_event list) option" where
  "run_daemon env arg = do {
     k \<leftarrow> atoi arg;
     let nthreads = (if k \<le> 0 then 1 else nat k);
     let (sock, tr1) = create_socket env;
     (if \<not> sock then Some (Some 1, Log_open # tr1)
      else if \<not> arrays_ok env then None
      else
        (let (ok, tr2) = start_threads env 0 nthreads; e = threads_end env nthreads in
         if \<not> ok then Some (Some 1, Log_open # tr1 @ tr2)
         else if listener e \<notin> {L_Done, L_Failed} then Some (None, Log_open # tr1 @ tr2 @ [Listener_loop])
         else
           (let (joined, tr3) = join_threads (pcs e) 0 nthreads in
            if \<not> joined then Some (None, Log_open # tr1 @ tr2 @ [Listener_loop] @ tr3)
            else Some (Some 0, Log_open # tr1 @ tr2 @ [Listener_loop] @ tr3 @ [Sock_unlink, Mpi_finalize])))) }"

definition main :: "main_env \<Rightarrow> string list \<Rightarrow> (int option \<times> main_event list) option" where
  "main env argv =
     (if length argv < 2 then Some (Some 1, [])
      else if argv ! 1 = ''wait'' then Some (client_wait env)
      else
        (let (ok, tr) = open_frameworks env 0 5 in
         if \<not> ok then Some (Some 1, Mpi_init # tr)
         else do {
           (code, tr') \<leftarrow> run_daemon env (argv ! 1);
           Some (code, Mpi_init # tr @ tr') }))"

section \<open>Facts\<close>

lemma start_threads_prefix:
  "start_threads env i k = (list_all (thread_ok env) [i..<i + k], map Thread_create (takeWhile (thread_ok env) [i..<i + k]))"
proof (induction k arbitrary: i)
  case (Suc k)
  have "[i..<i + Suc k] = i # [Suc i..<Suc i + k]" by (simp add: upt_conv_Cons)
  then show ?case using Suc.IH [of "Suc i"] by simp
qed simp

lemma open_frameworks_prefix:
  "open_frameworks env i k =
     (list_all (framework_ok env) [i..<i + k], map Framework_open (takeWhile (framework_ok env) [i..<i + k]))"
proof (induction k arbitrary: i)
  case (Suc k)
  have "[i..<i + Suc k] = i # [Suc i..<Suc i + k]" by (simp add: upt_conv_Cons)
  then show ?case using Suc.IH [of "Suc i"] by simp
qed simp

lemma atoi_show: "n < 2 ^ 31 \<Longrightarrow> atoi (show_nat n) = Some (int n)"
proof -
  assume n: "n < 2 ^ 31"
  have d: "\<forall>c \<in> set (show_nat n). 48 \<le> (of_char c :: nat) \<and> (of_char c :: nat) \<le> 57" using show_nat_digits by blast
  obtain c cs where s: "show_nat n = c # cs" by (cases "show_nat n") simp_all
  have c: "48 \<le> (of_char c :: nat)" "(of_char c :: nat) \<le> 57" using d s by simp_all
  then have "\<not> is_space c" "c \<noteq> CHR ''-''" "c \<noteq> CHR ''+''" by (auto simp: is_space_def)
  moreover have "takeWhile is_digit (show_nat n) = show_nat n" using d by (auto simp: takeWhile_eq_all_conv is_digit_def)
  moreover have "read_nat (c # cs) = n" using s read_show_nat by metis
  ultimately show ?thesis using n s by (simp add: atoi_def i32_def)
qed

lemma join_threads_prefix:
  "i + k = length ps \<Longrightarrow> join_threads ps i k =
     (let d = length (takeWhile ((=) W_Done) (drop i ps)) in
      (d = k, map Thread_join [i..<i + min k (Suc d)]))"
proof (induction k arbitrary: i)
  case (Suc k)
  have d: "drop i ps = ps ! i # drop (Suc i) ps" using Suc.prems by (simp add: Cons_nth_drop_Suc)
  show ?case
  proof (cases "ps ! i = W_Done")
    case True
    have "[i..<i + Suc (min k (Suc m))] = i # [Suc i..<Suc i + min k (Suc m)]" for m
      by (simp add: upt_conv_Cons del: upt_Suc)
    then show ?thesis using Suc.IH [of "Suc i"] Suc.prems True by (simp add: d Let_def del: upt_Suc)
  next
    case False
    then show ?thesis by (simp add: d)
  qed
qed simp

text \<open>How the daemon ends when all its threads were created.\<close>

definition daemon_exit :: "daemon \<Rightarrow> int option \<times> main_event list" where
  "daemon_exit e =
     (if listener e \<noteq> L_Done \<and> listener e \<noteq> L_Failed then (None, [Listener_loop])
      else if set (pcs e) \<subseteq> {W_Done}
      then (Some 0, Listener_loop # map Thread_join [0..<length (pcs e)] @ [Sock_unlink, Mpi_finalize])
      else (None, Listener_loop # map Thread_join [0..<Suc (length (takeWhile ((=) W_Done) (pcs e)))]))"

lemma takeWhile_all: "list_all P xs \<Longrightarrow> takeWhile P xs = xs"
  by (simp add: list_all_iff takeWhile_eq_all_conv)

lemma takeWhile_full: "length (takeWhile P xs) = length xs \<longleftrightarrow> (\<forall>x \<in> set xs. P x)"
  by (induction xs) auto

lemma join_all:
  assumes "length (pcs e) = n" "listener e = L_Done \<or> listener e = L_Failed"
  shows "(let (joined, tr) = join_threads (pcs e) 0 n in
      if \<not> joined then Some (None, pre @ [Listener_loop] @ tr)
      else Some (Some 0, pre @ [Listener_loop] @ tr @ [Sock_unlink, Mpi_finalize])) =
    map_option (\<lambda>(c, tr). (c, pre @ tr)) (Some (daemon_exit e))"
proof -
  let ?d = "length (takeWhile ((=) W_Done) (pcs e))"
  have j: "join_threads (pcs e) 0 n = (?d = n, map Thread_join [0..<min n (Suc ?d)])"
    using join_threads_prefix [of 0 n "pcs e"] assms(1) by (simp add: Let_def)
  have full: "?d = n \<longleftrightarrow> set (pcs e) \<subseteq> {W_Done}"
    using takeWhile_full [of "(=) W_Done" "pcs e"] assms(1) by auto
  have le: "?d \<le> n" using length_takeWhile_le [of "(=) W_Done" "pcs e"] assms(1) by simp
  show ?thesis
  proof (cases "?d = n")
    case True
    then show ?thesis using full assms unfolding j daemon_exit_def by (auto simp: min_def)
  next
    case False
    then have "min n (Suc ?d) = Suc ?d" using le by simp
    then show ?thesis using False full assms unfolding j daemon_exit_def by (auto simp del: upt_Suc)
  qed
qed

lemma run_daemon_exit:
  assumes "atoi arg = Some k" "n = (if k \<le> 0 then 1 else nat k)" "create_socket env = (True, tr1)" "arrays_ok env"
    and "list_all (thread_ok env) [0..<n]" "length (pcs (threads_end env n)) = n"
  shows "run_daemon env arg = (case daemon_exit (threads_end env n) of (c, tr) \<Rightarrow>
      Some (c, Log_open # tr1 @ map Thread_create [0..<n] @ tr))"
proof -
  let ?e = "threads_end env n"
  have st: "start_threads env 0 n = (True, map Thread_create [0..<n])"
    unfolding start_threads_prefix add_0 takeWhile_all [OF assms(5)] using assms(5) by simp
  show ?thesis
  proof (cases "listener ?e = L_Done \<or> listener ?e = L_Failed")
    case True
    then show ?thesis
      using join_all [OF assms(6) True, of "Log_open # tr1 @ map Thread_create [0..<n]"] assms(1-4) st
      by (cases "daemon_exit ?e") (auto simp: run_daemon_def Let_def split: prod.splits if_splits)
  next
    case False
    then show ?thesis using assms(1-4) st by (simp add: run_daemon_def Let_def daemon_exit_def)
  qed
qed

lemma daemon_exit_cases:
  assumes "reachable n e" "0 < n"
  shows "listener e \<noteq> L_Done \<Longrightarrow> listener e \<noteq> L_Failed \<Longrightarrow> daemon_exit e = (None, [Listener_loop])"
    and "listener e = L_Failed \<Longrightarrow> daemon_exit e = (None, [Listener_loop, Thread_join 0])"
    and "listener e = L_Done \<Longrightarrow> i < n \<Longrightarrow> pcs e ! i \<noteq> W_Done \<Longrightarrow> \<forall>j < i. pcs e ! j = W_Done \<Longrightarrow>
      daemon_exit e = (None, Listener_loop # map Thread_join [0..<Suc i])"
    and "listener e = L_Done \<Longrightarrow> \<forall>i < n. pcs e ! i = W_Done \<Longrightarrow>
      daemon_exit e = (Some 0, Listener_loop # map Thread_join [0..<n] @ [Sock_unlink, Mpi_finalize]) \<and>
      jobs e = [] \<and> mset (finished e) = mset (accepted e)"
proof -
  have inv: "daemon_inv e" and len: "length (pcs e) = n"
    using reachable_inv reachable_length assms(1) by blast+
  show "listener e \<noteq> L_Done \<Longrightarrow> listener e \<noteq> L_Failed \<Longrightarrow> daemon_exit e = (None, [Listener_loop])"
    by (simp add: daemon_exit_def)
  have first: "daemon_exit e = (None, Listener_loop # map Thread_join [0..<Suc i])"
    if "listener e = L_Done \<or> listener e = L_Failed" "i < n" "pcs e ! i \<noteq> W_Done" "\<forall>j < i. pcs e ! j = W_Done" for i
  proof -
    have "length (takeWhile ((=) W_Done) (pcs e)) = i"
      using takeWhile_eq_take_P_nth [of i "pcs e" "(=) W_Done"] that len by auto
    moreover have "\<not> set (pcs e) \<subseteq> {W_Done}" using that(2,3) len nth_mem by blast
    ultimately show ?thesis using that(1) by (auto simp: daemon_exit_def simp del: upt_Suc)
  qed
  show "listener e = L_Failed \<Longrightarrow> daemon_exit e = (None, [Listener_loop, Thread_join 0])"
  proof -
    assume f: "listener e = L_Failed"
    then have "W_Done \<notin> set (pcs e)" using inv by (auto simp: daemon_inv_def)
    then have "pcs e ! 0 \<noteq> W_Done" using len assms(2) nth_mem by metis
    then show ?thesis using first [of 0] f assms(2) by simp
  qed
  show "listener e = L_Done \<Longrightarrow> i < n \<Longrightarrow> pcs e ! i \<noteq> W_Done \<Longrightarrow> \<forall>j < i. pcs e ! j = W_Done \<Longrightarrow>
      daemon_exit e = (None, Listener_loop # map Thread_join [0..<Suc i])"
    using first by blast
  assume d: "listener e = L_Done" "\<forall>i < n. pcs e ! i = W_Done"
  have sub: "set (pcs e) \<subseteq> {W_Done}" using d(2) len by (auto simp: in_set_conv_nth)
  have "W_Done \<in> set (pcs e)" using d(2) len assms(2) nth_mem by metis
  then have "jobs e = []" using quit_pcs [OF inv] by blast
  moreover have "running (pcs e) = {#}" by (rule running_none) (use sub in auto)
  ultimately show "daemon_exit e = (Some 0, Listener_loop # map Thread_join [0..<n] @ [Sock_unlink, Mpi_finalize]) \<and>
      jobs e = [] \<and> mset (finished e) = mset (accepted e)"
    using d sub len inv by (simp add: daemon_exit_def daemon_inv_def)
qed

text \<open>The run up to the creation of the threads.\<close>

definition main_setup :: "main_env \<Rightarrow> nat \<Rightarrow> main_event list" where
  "main_setup env n =
     [Mpi_init] @ map Framework_open [0..<5] @ [Log_open, Sock_unlink, Sock_open, Sock_bind, Sock_listen] @
     map Thread_create (takeWhile (thread_ok env) [0..<n])"

lemma main_daemon:
  assumes "k < 2 ^ 31" "n = max 1 k" "list_all (framework_ok env) [0..<5]" "arrays_ok env"
    and "sock_socket_ok env" "sock_bind_ok env" "sock_listen_ok env"
  shows "\<not> list_all (thread_ok env) [0..<n] \<Longrightarrow> main env [prog, show_nat k] = Some (Some 1, main_setup env n)"
    and "list_all (thread_ok env) [0..<n] \<Longrightarrow> length (pcs (threads_end env n)) = n \<Longrightarrow>
      main env [prog, show_nat k] =
        (case daemon_exit (threads_end env n) of (c, tr) \<Rightarrow> Some (c, main_setup env n @ tr))"
proof -
  have w: "show_nat k \<noteq> ''wait''"
  proof
    assume "show_nat k = ''wait''"
    then have "CHR ''w'' \<in> set (show_nat k)" by simp
    then show False using show_nat_no_char [of "CHR ''w''" k] by simp
  qed
  have ob: "open_frameworks env 0 5 = (True, map Framework_open [0..<5])"
    unfolding open_frameworks_prefix add_0 takeWhile_all [OF assms(3)] using assms(3) by simp
  have n: "n = (if int k \<le> 0 then 1 else nat (int k))" using assms(2) by auto
  have a: "atoi (show_nat k) = Some (int k)" using atoi_show [OF assms(1)] .
  have cs: "create_socket env = (True, [Sock_unlink, Sock_open, Sock_bind, Sock_listen])"
    using assms(5-7) by (simp add: create_socket_def)
  have m: "main env [prog, show_nat k] =
      do { (code, tr) \<leftarrow> run_daemon env (show_nat k); Some (code, Mpi_init # map Framework_open [0..<5] @ tr) }"
    using w ob by (simp add: main_def)
  {
    assume f: "\<not> list_all (thread_ok env) [0..<n]"
    have "run_daemon env (show_nat k) = Some (Some 1, Log_open # [Sock_unlink, Sock_open, Sock_bind, Sock_listen] @
        map Thread_create (takeWhile (thread_ok env) [0..<n]))"
      unfolding run_daemon_def a bind.simps Let_def n [symmetric] cs start_threads_prefix
      using f assms(4) by simp
    then show "main env [prog, show_nat k] = Some (Some 1, main_setup env n)"
      unfolding m main_setup_def by simp
  }
  assume g: "list_all (thread_ok env) [0..<n]" "length (pcs (threads_end env n)) = n"
  show "main env [prog, show_nat k] =
      (case daemon_exit (threads_end env n) of (c, tr) \<Rightarrow> Some (c, main_setup env n @ tr))"
    unfolding m run_daemon_exit [OF a n cs assms(4) g] main_setup_def takeWhile_all [OF g(1)] by (auto split: prod.splits)
qed

lemma terminate_message: "listener_message ''terminate\<newline>'' = Terminate"
  by (simp add: listener_message_def c_string_def strncmp_eq_def PATH_MAX_def)

section \<open>Properties\<close>

text \<open>C30: The daemon starts as many workers as its argument says, one for an argument that is not
  positive, all of them before it listens. A thread that cannot be created ends the process with
  code 1, the threads before it never joined and the socket left. Otherwise the process ends with
  code 0 exactly when the listener finished with \<open>done\<close> and every worker ended; then every worker was joined in order,
  the socket is removed, and every accepted job is finished. When the listener polls for ever
  \<open>main\<close> never gets to a join, when \<open>accept\<close> failed it waits for ever in the first join, and it waits
  in the join of the first worker that does not end. \<open>bbviewd wait\<close> that reaches the daemon sends
  exactly one message, which the listener takes as the end of the service, and ends with code 0 when
  the read of the answer returns; without a connection it sends nothing and ends with 1.\<close>

theorem main_threads:
  assumes "k < 2 ^ 31" "n = max 1 k" "list_all (framework_ok env) [0..<5]" "arrays_ok env"
    and "sock_socket_ok env" "sock_bind_ok env" "sock_listen_ok env"
    and "e = threads_end env n" "reachable n e"
    and "pre = [Mpi_init] @ map Framework_open [0..<5] @ [Log_open, Sock_unlink, Sock_open, Sock_bind, Sock_listen]"
  shows "(\<not> list_all (thread_ok env) [0..<n] \<longrightarrow>
      main env [prog, show_nat k] = Some (Some 1, pre @ map Thread_create (takeWhile (thread_ok env) [0..<n]))) \<and>
    (list_all (thread_ok env) [0..<n] \<longrightarrow>
      (\<exists>code tr. main env [prog, show_nat k] =
          Some (code, pre @ map Thread_create [0..<n] @ [Listener_loop] @ tr) \<and>
        (listener e \<notin> {L_Done, L_Failed} \<longrightarrow> code = None \<and> tr = []) \<and>
        (listener e = L_Failed \<longrightarrow> code = None \<and> tr = [Thread_join 0]) \<and>
        (\<forall>i < n. listener e = L_Done \<and> pcs e ! i \<noteq> W_Done \<and> (\<forall>j < i. pcs e ! j = W_Done) \<longrightarrow>
          code = None \<and> tr = map Thread_join [0..<Suc i]) \<and>
        (listener e = L_Done \<and> (\<forall>i < n. pcs e ! i = W_Done) \<longrightarrow>
          code = Some 0 \<and> tr = map Thread_join [0..<n] @ [Sock_unlink, Mpi_finalize] \<and>
          jobs e = [] \<and> mset (finished e) = mset (accepted e)))) \<and>
    (client_socket_ok env \<and> client_connect_ok env \<longrightarrow>
      (\<exists>code tr msg. main env (prog # ''wait'' # rest) = Some (code, tr) \<and>
        filter (\<lambda>ev. \<exists>m. ev = Client_send m) tr = [Client_send msg] \<and> listener_message msg = Terminate \<and>
        code = (if client_reply env = Read_blocks then None else Some 0))) \<and>
    (\<not> (client_socket_ok env \<and> client_connect_ok env) \<longrightarrow>
      (\<exists>tr. main env (prog # ''wait'' # rest) = Some (Some 1, tr) \<and> (\<forall>m. Client_send m \<notin> set tr)))"
proof (intro conjI impI)
  assume "\<not> list_all (thread_ok env) [0..<n]"
  then show "main env [prog, show_nat k] = Some (Some 1, pre @ map Thread_create (takeWhile (thread_ok env) [0..<n]))"
    using main_daemon(1) [OF assms(1-7), of prog] assms(10) by (simp add: main_setup_def)
next
  have n: "0 < n" using assms(2) by simp
  assume ok: "list_all (thread_ok env) [0..<n]"
  note tw = takeWhile_all [OF ok]
  obtain c tr where d: "daemon_exit e = (c, Listener_loop # tr)"
    by (cases "daemon_exit e") (auto simp: daemon_exit_def split: if_splits)
  have "length (pcs (threads_end env n)) = n" using assms(8,9) reachable_length by blast
  from main_daemon(2) [OF assms(1-7) ok this, of prog] have m: "main env [prog, show_nat k] =
      Some (c, pre @ map Thread_create [0..<n] @ [Listener_loop] @ tr)"
    using d assms(8,10) unfolding main_setup_def tw by simp
  note cs = daemon_exit_cases [OF assms(9) n]
  show "\<exists>code tr. main env [prog, show_nat k] =
          Some (code, pre @ map Thread_create [0..<n] @ [Listener_loop] @ tr) \<and>
        (listener e \<notin> {L_Done, L_Failed} \<longrightarrow> code = None \<and> tr = []) \<and>
        (listener e = L_Failed \<longrightarrow> code = None \<and> tr = [Thread_join 0]) \<and>
        (\<forall>i < n. listener e = L_Done \<and> pcs e ! i \<noteq> W_Done \<and> (\<forall>j < i. pcs e ! j = W_Done) \<longrightarrow>
          code = None \<and> tr = map Thread_join [0..<Suc i]) \<and>
        (listener e = L_Done \<and> (\<forall>i < n. pcs e ! i = W_Done) \<longrightarrow>
          code = Some 0 \<and> tr = map Thread_join [0..<n] @ [Sock_unlink, Mpi_finalize] \<and>
          jobs e = [] \<and> mset (finished e) = mset (accepted e))"
    by (intro exI [of _ c] exI [of _ tr]) (use m d cs in \<open>auto simp del: upt_Suc\<close>)
qed (auto simp: main_def client_wait_def terminate_message Let_def split: client_read.splits)

definition demo_main :: "daemon \<Rightarrow> main_env" where
  "demo_main e = \<lparr>framework_ok = (\<lambda>_. True), sock_socket_ok = True, sock_bind_ok = True, sock_listen_ok = True,
     arrays_ok = True, thread_ok = (\<lambda>i. i < 1), client_socket_ok = True, client_connect_ok = True,
     client_reply = Read_bytes ''done'', threads_end = (\<lambda>_. e)\<rparr>"

theorem main_threads_witness:
  "(\<exists>tr. main (demo_main (served ''a''\<lparr>listener := L_Done\<rparr>)) [''bbviewd'', show_nat 1] = Some (Some 0, tr) \<and>
     last tr = Mpi_finalize) \<and>
   (\<exists>tr. main (demo_main missed_wakeup) [''bbviewd'', show_nat 1] = Some (None, tr) \<and> last tr = Listener_loop) \<and>
   (\<exists>tr msg. main (demo_main missed_wakeup) [''bbviewd'', ''wait''] = Some (Some 0, tr) \<and>
     Client_send msg \<in> set tr \<and> listener_message msg = Terminate)"
proof -
  let ?s = "served ''a''\<lparr>listener := L_Done\<rparr>" and ?m = missed_wakeup
  have env: "list_all (thread_ok (demo_main e)) [0..<1]" "list_all (framework_ok (demo_main e)) [0..<5]"
    "arrays_ok (demo_main e)" "sock_socket_ok (demo_main e)" "sock_bind_ok (demo_main e)"
    "sock_listen_ok (demo_main e)" "e = threads_end (demo_main e) 1" "client_socket_ok (demo_main e) \<and> client_connect_ok (demo_main e)"
    "client_reply (demo_main e) = Read_bytes ''done''" for e
    by (simp_all add: demo_main_def list_all_iff)
  have k: "(1::nat) < 2 ^ 31" "1 = max 1 (1::nat)" by simp_all
  have r: "reachable 1 ?s"
    using reachable.step [OF reach_served dstep.poll_done [of "served ''a''"]] by (simp add: served_def)
  note run = main_threads [OF k env(2-7) _ refl, where prog = "''bbviewd''" and rest = "[]"]
  have d: "listener ?s = L_Done \<and> (\<forall>i < 1. pcs ?s ! i = W_Done)" "listener ?m \<notin> {L_Done, L_Failed}"
    by (simp_all add: served_def missed_wakeup_def)
  have a: "\<exists>tr. main (demo_main ?s) [''bbviewd'', show_nat 1] = Some (Some 0, tr) \<and> last tr = Mpi_finalize"
    using run [OF r] env(1) [of ?s] d(1) by fastforce
  have b: "\<exists>tr. main (demo_main ?m) [''bbviewd'', show_nat 1] = Some (None, tr) \<and> last tr = Listener_loop"
    using run [OF reach_missed_wakeup] env(1) [of ?m] d(2) by fastforce
  have "Client_send msg \<in> set tr" if "filter (\<lambda>ev. \<exists>m. ev = Client_send m) tr = [Client_send msg]" for tr msg
    using that by (metis (lifting) filter_eq_Cons_iff in_set_conv_decomp)
  then have c: "\<exists>tr msg. main (demo_main ?m) [''bbviewd'', ''wait''] = Some (Some 0, tr) \<and>
      Client_send msg \<in> set tr \<and> listener_message msg = Terminate"
    using run [OF reach_missed_wakeup] env(8,9) [of ?m] by fastforce
  show ?thesis using a b c by blast
qed

end
