(* ===== verification/Spec2Isabelle.thy ===== *)
theory Spec2Isabelle
  imports BBV_Sort BBV_Adjacency BBV_Handoff BBV_Main
begin

text \<open>
  BBView is an Open MPI \<open>io\<close> component that buffers a file view on node-local storage, and a
  daemon, \<open>bbviewd\<close>, that copies the buffered data to the destination file. This development
  models both and proves what makes them correct, and where they are not.

  The program. When an application sets a view, \<open>mca_io_bbview_file_set_view\<close> opens a local
  buffer file in place of the destination and remembers the packed types and the displacement;
  writes then go through the ompio library to the buffer file. The next view, the byte view or
  the closing of the file flushes: \<open>mca_io_bbview_file_flush\<close> stores the description in
  extended attributes of the buffer file and sends its name over a Unix socket. The
  listener of \<open>bbviewd\<close> queues the name; a worker decodes the attributes, opens the destination
  with the view and copies the contents. The component also supplies the callback that turns
  byte counts into file extents, with an optional report about the neighbourhood of the
  processes in the file.

  The parts, in the order of the theories:
  \<^item> \<open>BBV_Prelude\<close>, \<open>BBV_Text\<close>: return codes, C operations that can be undefined, decimal
    printing, bounded strings, \<open>strncmp\<close>.
  \<^item> \<open>BBV_View\<close>, \<open>BBV_Sort\<close>, \<open>BBV_Adjacency\<close> (\<open>io_bbview.c\<close>): the view cursor
    \<open>generate_view\<close> against the bytes that a view makes visible, with its error paths and the
    composition of two requests; the heap sort of the offsets; the report, with its
    allocations, its matrix, the compressed rows and the four states in which it leaves its file.
  \<^item> \<open>BBV_Names\<close>, \<open>BBV_Xattr\<close> (\<open>io_bbview_file_flush.c\<close>, start of \<open>execute\<close>): the
    name of the buffer file and the attributes. The writer takes the buffers that \<open>set_view\<close>
    saved and looks at them only when it gets to them, after the calls that may fail before.
  \<^item> \<open>BBV_Directio\<close> (\<open>io_bbview_file_set_view.c\<close>): \<open>enable_directio\<close> over the constructor tree
    of a data type.
  \<^item> \<open>BBV_Handle\<close>, \<open>BBV_SetView\<close>: the MPI handle with its lock, the private data
    (\<open>mca_common_bbview_data_t\<close>), local files, descriptors and sockets; set, get and flush of a
    view, open and close; the abstract machine \<open>view_step\<close> on state and view number; what a
    failed pack and a leftover attribute do.
  \<^item> \<open>BBV_ReadWrite\<close> (\<open>io_bbview_file_read.c\<close>, \<open>io_bbview_file_write.c\<close>): the 34 read and write
    operations. A reply is the return code with the count that the operation itself stores in
    the status, if it does.
  \<^item> \<open>BBV_FileOps\<close>, \<open>BBV_Position\<close>, \<open>BBV_Prealloc\<close> (\<open>io_bbview_file_open.c\<close>): sizes,
    atomicity, synchronisation; byte offsets, the end of the file and seeking; preallocation.
  \<^item> \<open>BBV_Params\<close> (\<open>io_bbview_component.c\<close>, end of \<open>io_bbview.c\<close>): parameters and defaults, the
    look-up callback, the private data of a new file.
  \<^item> \<open>BBV_Module\<close> (\<open>io_bbview_module.c\<close>): the module table as one dispatcher, and sessions.
  \<^item> \<open>BBV_Queue\<close>, \<open>BBV_Daemon\<close>, \<open>BBV_Execute\<close>, \<open>BBV_Main\<close> (\<open>bbviewd.c\<close>): the linked job
    queue, the threads as a step relation (with jobs that are dropped for lack of memory), one
    job, the process around them. \<open>main\<close> takes the state in which its threads end as a
    parameter \<open>threads_end\<close>, which its property asks to be reachable in the step relation; a call that
    waits for a thread that has not ended there never returns, and then \<open>main\<close> has no exit code.
  \<^item> \<open>BBV_Handoff\<close>: the way of a flushed view through all of these to the destination.

  Conventions. A C function is a definition whose value is an option: \<open>None\<close> is undefined
  behaviour, a crash, a self-deadlock or a call that never returns; return codes are ordinary
  values. In \<open>main\<close> a call that never returns is the exit code \<open>None\<close> with the trace up to it. 64-bit quantities are words; C's \<open>int\<close> is an integer with the range checked after each
  operation. The state of the ompio library is a type parameter \<open>'x\<close> and its functions, those
  of MPI, the collectives and the system calls are fields of records (\<open>env\<close>, \<open>io_env\<close>,
  \<open>ops_env\<close>, \<open>pos_env\<close>, \<open>pre_env\<close>, \<open>exec_env\<close>, \<open>main_env\<close>); what a property needs of them
  is among its hypotheses.

  Interfaces. Locales state what one part promises another, and each is interpreted on the model's
  own definitions: the attribute store of a local file, the job queue as a first-in first-out
  queue, \<open>handle_client\<close> for operations that only pass a call on, \<open>view_machine\<close> for
  dispatchers whose calls are steps of the view machine and leave the lock free, and
  \<open>typed_machine\<close>, which adds the calls that always return. The operations of \<open>handle_client\<close> are
  view machines (a sublocale).

  What the lemmas show. Each operation has the lemma that relates it to the abstract state
  (\<open>*_abs\<close>, \<open>*_step\<close>), and those that cannot fail the lemma that they return
  (\<open>*_returns\<close>); the properties about sessions follow by induction over the calls. The loops of the
  view, of the attributes and of the copy are related to list functions by induction on what is left of
  their input; the thread model has an invariant over all reachable states and a measure for
  draining. Properties that describe a defect state what the code does for all inputs of
  a class, or exhibit a reachable state. The preallocation properties are about an instance of the
  library, a flat file with one moving file pointer (\<open>flat_env\<close>).

  Loops and bounds. No definition uses fuel. Structural recursion and measures cover all loops
  but two, which are \<open>partial_function (option)\<close> as the code may not return from them: the
  extent loop of the view (it returns for views with a non-empty block, as its properties show) and the
  element loop of the end-of-file position (it returns for element sizes other than 0). A
  session theorem bounds the number of calls by 2^64 because the view number is a 64-bit word.

  Not modelled. The ompio library, MPI's types and collectives and the kernel are parameters:
  their code is not part of the repository. Log and error output, time stamps and reference counts of
  data types have no counterpart. Allocation failures are modelled where the code
  tests for them, and in \<open>main\<close>; the unchecked \<open>malloc\<close> and \<open>strdup\<close> calls of
  \<open>set_view\<close> and \<open>execute\<close> are taken to succeed. A read of a socket delivers one message as
  a whole. The prototypes of \<open>io_bbview.h\<close>, the build files and the README contain no program logic.
\<close>

end
